theory Spec2Isabelle
  imports Main "HOL-Library.Sublist" "HOL-Library.Multiset" "HOL-Library.AList"
begin

section \<open>Strings\<close>

text \<open>
  Python strings are modelled as \<open>string\<close>; a \<open>char\<close> stands for a code point
  below 256 (Latin-1), which is the range this development covers. The
  character classes are those of \<open>str.isspace\<close>, \<open>str.lower\<close> and of the
  regular expression classes \<open>\s\<close> and \<open>\d\<close> on that range.
\<close>

definition isspace :: "char \<Rightarrow> bool" where
  "isspace c = (let n = (of_char c :: nat) in
     (9 \<le> n \<and> n \<le> 13) \<or> (28 \<le> n \<and> n \<le> 32) \<or> n = 133 \<or> n = 160)"

definition isdigit :: "char \<Rightarrow> bool" where
  "isdigit c = (let n = (of_char c :: nat) in 48 \<le> n \<and> n \<le> 57)"

text \<open>
  Lower-casing adds 32 to the code of an upper-case letter (A to Z, and the
  Latin-1 capitals 192 to 222 except the multiplication sign 215), that is,
  it sets the bit of weight 32, which those codes have clear.
\<close>

definition isupper :: "char \<Rightarrow> bool" where
  "isupper c = (let n = (of_char c :: nat) in
     (65 \<le> n \<and> n \<le> 90) \<or> (192 \<le> n \<and> n \<le> 222 \<and> n \<noteq> 215))"

definition lower_char :: "char \<Rightarrow> char" where
  "lower_char c =
     (if isupper c
      then (case c of Char b0 b1 b2 b3 b4 b5 b6 b7 \<Rightarrow> Char b0 b1 b2 b3 b4 True b6 b7)
      else c)"

definition lower :: "string \<Rightarrow> string" where
  "lower s = map lower_char s"

text \<open>\<open>str.strip()\<close>: leading and trailing whitespace removed.\<close>

definition strip :: "string \<Rightarrow> string" where
  "strip s = rev (dropWhile isspace (rev (dropWhile isspace s)))"

text \<open>
  \<open>str.replace(old, new)\<close>: the occurrences of \<open>old\<close> are found from the left,
  without overlap, and each is replaced. For an empty \<open>old\<close> Python puts
  \<open>new\<close> before every character and at the end.
\<close>

fun replace_from :: "string \<Rightarrow> string \<Rightarrow> string \<Rightarrow> string" where
  "replace_from old new [] = []"
| "replace_from old new (c # s) =
     (if old \<noteq> [] \<and> take (length old) (c # s) = old
      then new @ replace_from old new (drop (length old - 1) s)
      else c # replace_from old new s)"

definition replace :: "string \<Rightarrow> string \<Rightarrow> string \<Rightarrow> string" where
  "replace s old new =
     (if old = [] then new @ concat (map (\<lambda>c. c # new) s)
      else replace_from old new s)"

section \<open>Cleaning a time string\<close>

text \<open>
  \<open>clean_time_string\<close> of \<open>main.py\<close>: the loop over \<open>words_to_remove\<close> is a
  fold that removes the word and strips after each removal.
\<close>

definition words_to_remove :: "string list" where
  "words_to_remove = [''onwards'', ''onward'', ''starting'', ''from'', ''at'']"

definition clean_time_string :: "string \<Rightarrow> string" where
  "clean_time_string time_str =
     (let t = lower time_str;
          t = foldl (\<lambda>t word. strip (replace t word [])) t words_to_remove;
          t = replace (replace t ''pm'' '' PM'') ''am'' '' AM''
      in strip t)"

text \<open>
  The cleaning step in the words of the specification: lower-case, remove
  every occurrence of each of the five words in turn, pad \<open>pm\<close> then \<open>am\<close>,
  and trim once at the end.
\<close>

definition spec_clean :: "string \<Rightarrow> string" where
  "spec_clean raw =
     strip (replace (replace
       (replace (replace (replace (replace (replace (lower raw)
          ''onwards'' []) ''onward'' []) ''starting'' []) ''from'' []) ''at'' [])
       ''pm'' '' PM'') ''am'' '' AM'')"

definition nospace :: "string \<Rightarrow> bool" where
  "nospace w = (\<forall>c \<in> set w. \<not> isspace c)"

section \<open>Regular expressions\<close>

text \<open>
  The fragment of Python's \<open>re\<close> that the program and \<open>strptime\<close> use:
  character classes, sequence, ordered alternative, greedy option, greedy
  repetition of a class, and capture groups. \<open>ms r s g\<close> lists, in the order a
  backtracking matcher tries them, the ways \<open>r\<close> matches a prefix of \<open>s\<close>:
  each is the unread rest of \<open>s\<close> with the groups captured so far.
\<close>

datatype cls = Digit | Space | Range char char | Exactly char | AnyCase char

fun in_cls :: "cls \<Rightarrow> char \<Rightarrow> bool" where
  "in_cls Digit c = isdigit c"
| "in_cls Space c = isspace c"
| "in_cls (Range a b) c = ((of_char a :: nat) \<le> of_char c \<and> (of_char c :: nat) \<le> of_char b)"
| "in_cls (Exactly a) c = (c = a)"
| "in_cls (AnyCase a) c = (lower_char c = lower_char a)"

datatype re = Eps | C cls | Seq re re | Alt re re | Opt re | Star cls | Plus cls
  | Grp string re

type_synonym groups = "(string \<times> string) list"

fun ms :: "re \<Rightarrow> string \<Rightarrow> groups \<Rightarrow> (string \<times> groups) list" where
  "ms Eps s g = [(s, g)]"
| "ms (C k) s g = (case s of [] \<Rightarrow> [] | c # t \<Rightarrow> if in_cls k c then [(t, g)] else [])"
| "ms (Seq a b) s g = concat (map (\<lambda>(t, h). ms b t h) (ms a s g))"
| "ms (Alt a b) s g = ms a s g @ ms b s g"
| "ms (Opt a) s g = ms a s g @ [(s, g)]"
| "ms (Star k) s g =
     map (\<lambda>n. (drop n s, g)) (rev [0 ..< Suc (length (takeWhile (in_cls k) s))])"
| "ms (Plus k) s g =
     map (\<lambda>n. (drop n s, g)) (rev [1 ..< Suc (length (takeWhile (in_cls k) s))])"
| "ms (Grp n a) s g =
     map (\<lambda>(t, h). (t, (n, take (length s - length t) s) # h)) (ms a s g)"

text \<open>
  \<open>Pattern.match\<close>: the first way to match at the start of the string, as the
  number of characters read and the groups; \<open>Pattern.search\<close>: the first
  position, from the left, where a match starts. \<open>group\<close> is \<open>Match.group\<close>,
  \<open>None\<close> for a group that took no part in the match.
\<close>

definition re_match :: "re \<Rightarrow> string \<Rightarrow> (nat \<times> groups) option" where
  "re_match r s = (case ms r s [] of [] \<Rightarrow> None
                   | (t, g) # _ \<Rightarrow> Some (length s - length t, g))"

fun re_search :: "re \<Rightarrow> string \<Rightarrow> (nat \<times> groups) option" where
  "re_search r [] = re_match r []"
| "re_search r (c # s) = (case re_match r (c # s) of Some m \<Rightarrow> Some m
                          | None \<Rightarrow> re_search r s)"

definition group :: "groups \<Rightarrow> string \<Rightarrow> string option" where
  "group g n = map_of g n"

definition lit :: "string \<Rightarrow> re" where
  "lit s = foldr (\<lambda>c r. Seq (C (Exactly c)) r) s Eps"

definition lit_i :: "string \<Rightarrow> re" where
  "lit_i s = foldr (\<lambda>c r. Seq (C (AnyCase c)) r) s Eps"

section \<open>Dates, times and \<open>datetime.strptime\<close>\<close>

datatype date = Date (year: nat) (month: nat) (day: nat)

datatype time = Time (hour: nat) (minute: nat) (second: nat)

type_synonym datetime = "date \<times> time"

definition is_leap :: "nat \<Rightarrow> bool" where
  "is_leap y = (y mod 4 = 0 \<and> (y mod 100 \<noteq> 0 \<or> y mod 400 = 0))"

definition days_in_month :: "nat \<Rightarrow> nat \<Rightarrow> nat" where
  "days_in_month y m =
     (if m = 2 then (if is_leap y then 29 else 28)
      else if m \<in> {4, 6, 9, 11} then 30 else 31)"

text \<open>The range checks of the \<open>datetime\<close> constructor.\<close>

definition valid_datetime :: "datetime \<Rightarrow> bool" where
  "valid_datetime dt = (case dt of (Date y m d, Time hh mm ss) \<Rightarrow>
     1 \<le> y \<and> y \<le> 9999 \<and> 1 \<le> m \<and> m \<le> 12 \<and> 1 \<le> d \<and> d \<le> days_in_month y m \<and>
     hh \<le> 23 \<and> mm \<le> 59 \<and> ss \<le> 59)"

text \<open>\<open>int(s)\<close> on a string of decimal digits, surrounding whitespace ignored.\<close>

definition digit_val :: "char \<Rightarrow> nat" where
  "digit_val c = of_char c - 48"

definition int_of_str :: "string \<Rightarrow> nat" where
  "int_of_str s = foldl (\<lambda>a c. 10 * a + digit_val c) 0 (strip s)"

text \<open>
  The regular expression of each format directive, as \<open>_strptime.TimeRE\<close>
  has it (the directives this program uses; \<open>%p\<close> with the markers
  \<open>am\<close> and \<open>pm\<close> of the C and English locales). The pattern is compiled
  with \<open>IGNORECASE\<close>, hence \<open>lit_i\<close> and \<open>AnyCase\<close>.
\<close>

definition digit_range :: "char \<Rightarrow> char \<Rightarrow> re" where
  "digit_range a b = C (Range a b)"

definition directive :: "char \<Rightarrow> re option" where
  "directive d =
    (if d = CHR ''d'' then Some (Grp ''d''
        (Alt (Seq (C (Exactly CHR ''3'')) (digit_range CHR ''0'' CHR ''1''))
        (Alt (Seq (digit_range CHR ''1'' CHR ''2'') (C Digit))
        (Alt (Seq (C (Exactly CHR ''0'')) (digit_range CHR ''1'' CHR ''9''))
        (Alt (digit_range CHR ''1'' CHR ''9'')
             (Seq (C (Exactly CHR '' '')) (digit_range CHR ''1'' CHR ''9'')))))))
     else if d = CHR ''H'' then Some (Grp ''H''
        (Alt (Seq (C (Exactly CHR ''2'')) (digit_range CHR ''0'' CHR ''3''))
        (Alt (Seq (digit_range CHR ''0'' CHR ''1'') (C Digit))
             (C Digit))))
     else if d = CHR ''I'' then Some (Grp ''I''
        (Alt (Seq (C (Exactly CHR ''1'')) (digit_range CHR ''0'' CHR ''2''))
        (Alt (Seq (C (Exactly CHR ''0'')) (digit_range CHR ''1'' CHR ''9''))
             (digit_range CHR ''1'' CHR ''9''))))
     else if d = CHR ''m'' then Some (Grp ''m''
        (Alt (Seq (C (Exactly CHR ''1'')) (digit_range CHR ''0'' CHR ''2''))
        (Alt (Seq (C (Exactly CHR ''0'')) (digit_range CHR ''1'' CHR ''9''))
             (digit_range CHR ''1'' CHR ''9''))))
     else if d = CHR ''M'' then Some (Grp ''M''
        (Alt (Seq (digit_range CHR ''0'' CHR ''5'') (C Digit))
             (C Digit)))
     else if d = CHR ''S'' then Some (Grp ''S''
        (Alt (Seq (C (Exactly CHR ''6'')) (digit_range CHR ''0'' CHR ''1''))
        (Alt (Seq (digit_range CHR ''0'' CHR ''5'') (C Digit))
             (C Digit))))
     else if d = CHR ''Y'' then Some (Grp ''Y''
        (Seq (C Digit) (Seq (C Digit) (Seq (C Digit) (C Digit)))))
     else if d = CHR ''p'' then Some (Grp ''p'' (Alt (lit_i ''am'') (lit_i ''pm'')))
     else None)"

text \<open>
  \<open>TimeRE.pattern\<close>: a run of whitespace in the format matches one or more
  whitespace characters, \<open>%x\<close> is the directive's expression, any other
  character matches itself. \<open>None\<close> is the \<open>ValueError\<close> of a bad directive or
  a stray \<open>%\<close>.
\<close>

function pattern :: "string \<Rightarrow> re option" where
  "pattern [] = Some Eps"
| "pattern (c # fmt) =
     (if c = CHR ''%'' then
        (case fmt of [] \<Rightarrow> None
         | d # rest \<Rightarrow> (case directive d of None \<Rightarrow> None
                        | Some r \<Rightarrow> map_option (Seq r) (pattern rest)))
      else if isspace c then map_option (Seq (Plus Space)) (pattern (dropWhile isspace fmt))
      else map_option (Seq (C (AnyCase c))) (pattern fmt))"
  by pat_completeness auto
termination
  by (relation "measure length") (auto simp: less_Suc_eq_le length_dropWhile_le)

datatype verr = BadDirective string | NoMatch string string | Unconverted string
  | OutOfRange | CouldNotParse string

text \<open>
  \<open>datetime.strptime(data_string, format)\<close>. It raises \<open>ValueError\<close> only, so
  the error is the payload of that exception: the format is bad, the data
  does not match, the match stops before the end of the data, or the fields
  are no valid date and time. With \<open>%I\<close> the hour is read on a 12-hour
  clock: 12 is hour 0 unless the marker is \<open>pm\<close>, and \<open>pm\<close> adds 12 to any
  other hour. Fields absent from the format default to 1900-01-01 00:00:00.
\<close>

definition field :: "groups \<Rightarrow> string \<Rightarrow> nat \<Rightarrow> nat" where
  "field found k dflt = (case group found k of None \<Rightarrow> dflt | Some v \<Rightarrow> int_of_str v)"

definition hour_of :: "groups \<Rightarrow> nat" where
  "hour_of found =
     (case group found ''I'' of
        None \<Rightarrow> field found ''H'' 0
      | Some i \<Rightarrow>
         (let h = int_of_str i;
              ampm = (case group found ''p'' of None \<Rightarrow> [] | Some p \<Rightarrow> lower p)
          in if ampm = [] \<or> ampm = ''am'' then (if h = 12 then 0 else h)
             else if ampm = ''pm'' then (if h \<noteq> 12 then h + 12 else h)
             else h))"

definition strptime :: "string \<Rightarrow> string \<Rightarrow> verr + datetime" where
  "strptime data_string format =
     (case pattern format of
        None \<Rightarrow> Inl (BadDirective format)
      | Some format_regex \<Rightarrow>
         (case re_match format_regex data_string of
            None \<Rightarrow> Inl (NoMatch data_string format)
          | Some (e, found) \<Rightarrow>
              if length data_string \<noteq> e then Inl (Unconverted (drop e data_string))
              else
                (let dt = (Date (field found ''Y'' 1900) (field found ''m'' 1) (field found ''d'' 1),
                           Time (hour_of found) (field found ''M'' 0) (field found ''S'' 0))
                 in if valid_datetime dt then Inr dt else Inl OutOfRange)))"

section \<open>Normalising the event time\<close>

text \<open>The format \<open>{n:02d}\<close>: decimal digits, padded with zeros to two places
  (\<open>zpad w\<close>: to \<open>w\<close> places).\<close>

fun str_nat :: "nat \<Rightarrow> string" where
  "str_nat n = (if n < 10 then [''0123456789'' ! n]
                else str_nat (n div 10) @ [''0123456789'' ! (n mod 10)])"

declare str_nat.simps [simp del]

definition zpad :: "nat \<Rightarrow> nat \<Rightarrow> string" where
  "zpad w n = replicate (w - length (str_nat n)) CHR ''0'' @ str_nat n"

definition pad2 :: "nat \<Rightarrow> string" where
  "pad2 n = zpad 2 n"

text \<open>
  Lines 106 to 148 of \<open>main.py\<close>, the time branch of \<open>analyze_poster\<close>.
  The formats are tried in the order of the list and the first that parses
  wins; \<open>strptime\<close>'s \<open>ValueError\<close> moves on to the next format.
\<close>

definition time_formats :: "string list" where
  "time_formats = [''%I:%M %p'', ''%I:%M%p'', ''%I:%M'', ''%H:%M'', ''%I %p'',
                   ''%H:%M:%S'', ''%I:%M:%S %p'']"

fun try_formats :: "string \<Rightarrow> string list \<Rightarrow> time option" where
  "try_formats time_str [] = None"
| "try_formats time_str (fmt # fmts) =
     (case strptime time_str fmt of
        Inr dt \<Rightarrow> Some (snd dt)
      | Inl e \<Rightarrow> try_formats time_str fmts)"

text \<open>The pattern \<^verbatim>\<open>(\d{1,2}):?(\d{2})?\s*(am|pm|AM|PM)?\<close> of the fallback.\<close>

definition time_pattern :: re where
  "time_pattern =
     Seq (Grp ''1'' (Seq (C Digit) (Opt (C Digit))))
    (Seq (Opt (C (Exactly CHR '':'')))
    (Seq (Opt (Grp ''2'' (Seq (C Digit) (C Digit))))
    (Seq (Star Space)
         (Opt (Grp ''3'' (Alt (lit ''am'') (Alt (lit ''pm'') (Alt (lit ''AM'') (lit ''PM'')))))))))"

datatype exn = ValueError verr | JSONDecodeError | TypeError | AttributeError
  | IntegrityError | DBError | External string | HTTPException nat detail
and detail = InvalidDateQuery | InvalidDateTime verr | BadModelJSON | StrOf exn

text \<open>
  The fallback, run when no format parsed: \<open>original\<close> is the time as the
  model returned it (it goes into the error message), \<open>time_str\<close> the
  cleaned string.
\<close>

definition regex_fallback :: "string \<Rightarrow> string \<Rightarrow> exn + time" where
  "regex_fallback original time_str =
     (case re_search time_pattern time_str of
        Some (e, found) \<Rightarrow>
          (case group found ''1'' of
             None \<Rightarrow> Inl TypeError
           | Some g1 \<Rightarrow>
              (let hour = int_of_str g1;
                   minute = (case group found ''2'' of None \<Rightarrow> 0
                             | Some g2 \<Rightarrow> if g2 = [] then 0 else int_of_str g2);
                   period = group found ''3'';
                   hour = (if period \<noteq> None \<and> period \<noteq> Some [] \<and> map_option lower period = Some ''pm''
                              \<and> hour \<noteq> 12 then hour + 12
                           else if period \<noteq> None \<and> period \<noteq> Some [] \<and> map_option lower period = Some ''am''
                              \<and> hour = 12 then 0
                           else hour)
               in case strptime (pad2 hour @ '':'' @ pad2 minute) ''%H:%M'' of
                    Inl e \<Rightarrow> Inl (ValueError e)
                  | Inr dt \<Rightarrow> Inr (snd dt)))
      | None \<Rightarrow> Inl (ValueError (CouldNotParse original)))"

definition parse_event_time :: "string \<Rightarrow> exn + time" where
  "parse_event_time event_time =
     (let time_str = clean_time_string event_time in
      case try_formats time_str time_formats of
        Some parsed_time \<Rightarrow> Inr parsed_time
      | None \<Rightarrow> regex_fallback event_time time_str)"

text \<open>A string that does not start with a digit.\<close>

definition no_digit_head :: "string \<Rightarrow> bool" where
  "no_digit_head s = (case s of [] \<Rightarrow> True | c # t \<Rightarrow> \<not> isdigit c)"

section \<open>The poster table\<close>

text \<open>
  The model \<open>Poster\<close> of \<open>models.py\<close>: a row of the table \<open>posters\<close>. Every
  column but the key may be \<open>NULL\<close>. The store is the list of rows, in the
  order they were inserted.
\<close>

record poster =
  id_col :: nat
  title :: "string option"
  name :: "string option"
  location :: "string option"
  socials :: "string option"
  event_date :: "date option"
  event_time :: "time option"
  venue :: "string option"
  hosted_department :: "string option"
  created_at :: nat

type_synonym store = "poster list"

section \<open>Python values and the collaborators\<close>

text \<open>
  What \<open>json.loads\<close> returns, and the \<open>date\<close> and \<open>time\<close> objects the handler
  puts into the dictionary. A dictionary is an association list, read with
  \<open>map_of\<close>. JSON numbers are taken to be integers.
\<close>

datatype pyval = PNone | PBool bool | PInt int | PStr string | PList "pyval list"
  | PDict "(string \<times> pyval) list" | PDate date | PTime time

type_synonym dict = "(string \<times> pyval) list"

fun truthy :: "pyval \<Rightarrow> bool" where
  "truthy PNone = False"
| "truthy (PBool b) = b"
| "truthy (PInt i) = (i \<noteq> 0)"
| "truthy (PStr s) = (s \<noteq> [])"
| "truthy (PList xs) = (xs \<noteq> [])"
| "truthy (PDict kvs) = (kvs \<noteq> [])"
| "truthy (PDate d) = True"
| "truthy (PTime t) = True"

definition get :: "dict \<Rightarrow> string \<Rightarrow> pyval" where
  "get d k = (case map_of d k of None \<Rightarrow> PNone | Some v \<Rightarrow> v)"

definition setitem :: "dict \<Rightarrow> string \<Rightarrow> pyval \<Rightarrow> dict" where
  "setitem d k v = AList.update k v d"

text \<open>
  The collaborators are parameters: the image decoder, the model (its call,
  then the read of \<open>response.text\<close>, each of which may raise), \<open>json.loads\<close>
  (\<open>None\<close> is \<open>JSONDecodeError\<close>), the clock, and the database: the failure of
  an operation, the key the sequence hands out, and how the driver binds a
  value that is not of the column's type (\<open>None\<close>: it refuses). The
  declarative base gives the class \<open>Poster\<close> attributes that are no columns
  (\<open>metadata\<close>, \<open>registry\<close> and others); \<open>setattr_other k v\<close> says what
  setting such a name does: \<open>None\<close> when the class has no attribute \<open>k\<close>,
  \<open>Some None\<close> when the attribute is set, \<open>Some (Some e)\<close> when setting it
  raises \<open>e\<close>.
\<close>

datatype db_op = Query | Commit | Refresh

record env =
  image_open :: "string \<Rightarrow> exn option"
  generate_content :: "string \<Rightarrow> exn + (exn + string)"
  json_loads :: "string \<Rightarrow> pyval option"
  today :: date
  utcnow :: nat
  db_fails :: "db_op \<Rightarrow> exn option"
  next_id :: nat
  bind_text :: "pyval \<Rightarrow> string option"
  bind_id :: "pyval \<Rightarrow> nat option"
  bind_timestamp :: "pyval \<Rightarrow> nat option"
  setattr_other :: "string \<Rightarrow> pyval \<Rightarrow> exn option option"

section \<open>\<open>POST /analyze-poster\<close>\<close>

text \<open>
  Lines 98 to 103: the date branch. A truthy value that is no string makes
  \<open>strptime\<close> raise \<open>TypeError\<close>.
\<close>

definition parse_event_date :: "dict \<Rightarrow> exn + dict" where
  "parse_event_date extracted_data =
     (if truthy (get extracted_data ''event_date'') then
        (case get extracted_data ''event_date'' of
           PStr s \<Rightarrow> (case strptime s ''%Y-%m-%d'' of
                       Inl e \<Rightarrow> Inl (ValueError e)
                     | Inr dt \<Rightarrow> Inr (setitem extracted_data ''event_date'' (PDate (fst dt))))
         | _ \<Rightarrow> Inl TypeError)
      else Inr extracted_data)"

text \<open>
  Lines 106 to 148: the time branch. A truthy value that is no string has no
  \<open>lower\<close> method.
\<close>

definition parse_event_time_field :: "dict \<Rightarrow> exn + dict" where
  "parse_event_time_field extracted_data =
     (if truthy (get extracted_data ''event_time'') then
        (case get extracted_data ''event_time'' of
           PStr s \<Rightarrow> (case parse_event_time s of
                       Inl e \<Rightarrow> Inl e
                     | Inr parsed_time \<Rightarrow>
                         Inr (setitem extracted_data ''event_time'' (PTime parsed_time)))
         | _ \<Rightarrow> Inl AttributeError)
      else Inr extracted_data)"

text \<open>
  Lines 97 to 154: the inner \<open>try\<close>. \<open>except ValueError\<close> catches \<open>ValueError\<close>
  and its subclass \<open>JSONDecodeError\<close> and raises \<open>HTTPException\<close> with status
  400; anything else passes through.
\<close>

definition is_ValueError :: "exn \<Rightarrow> bool" where
  "is_ValueError e = (case e of ValueError v \<Rightarrow> True | JSONDecodeError \<Rightarrow> True | _ \<Rightarrow> False)"

definition parse_date_time :: "dict \<Rightarrow> exn + dict" where
  "parse_date_time extracted_data =
     (case (case parse_event_date extracted_data of
              Inl e \<Rightarrow> Inl e
            | Inr d \<Rightarrow> parse_event_time_field d) of
        Inl e \<Rightarrow> if is_ValueError e
                 then Inl (HTTPException 400
                        (case e of ValueError v \<Rightarrow> InvalidDateTime v | _ \<Rightarrow> StrOf e))
                 else Inl e
      | Inr d \<Rightarrow> Inr d)"

text \<open>
  \<open>Poster(**extracted_data)\<close>: the declarative constructor goes through the
  keys in turn, raises \<open>TypeError\<close> for a key that is no attribute of the
  class, and sets the attribute otherwise. A column takes any value; another
  attribute of the class is set as \<open>setattr_other\<close> says and does not reach
  the row.
\<close>

definition poster_columns :: "string list" where
  "poster_columns = [''id'', ''title'', ''name'', ''location'', ''socials'', ''event_date'',
                     ''event_time'', ''venue'', ''hosted_department'', ''created_at'']"

fun poster_init :: "env \<Rightarrow> dict \<Rightarrow> exn option" where
  "poster_init env [] = None"
| "poster_init env ((k, v) # kwargs) =
     (if k \<in> set poster_columns then poster_init env kwargs
      else case setattr_other env k v of
             None \<Rightarrow> Some TypeError
           | Some (Some e) \<Rightarrow> Some e
           | Some None \<Rightarrow> poster_init env kwargs)"

text \<open>
  The row the \<open>INSERT\<close> writes. A text column takes a string or \<open>NULL\<close>
  (the driver refuses a string with a NUL character in it), the
  date and time columns take the parsed objects or \<open>NULL\<close>; a falsy value
  that was left in the dictionary unparsed (an empty string, zero) is no
  date or time, and the statement fails. The key and the creation time are
  the store's (the sequence, \<open>datetime.utcnow\<close>) unless the dictionary carries
  them.
\<close>

definition text_column :: "env \<Rightarrow> pyval \<Rightarrow> string option option" where
  "text_column env v =
     (case v of PNone \<Rightarrow> Some None
      | PStr s \<Rightarrow> if CHR 0x00 \<in> set s then None else Some (Some s)
      | _ \<Rightarrow> map_option Some (bind_text env v))"

definition date_column :: "pyval \<Rightarrow> date option option" where
  "date_column v = (case v of PNone \<Rightarrow> Some None | PDate d \<Rightarrow> Some (Some d) | _ \<Rightarrow> None)"

definition time_column :: "pyval \<Rightarrow> time option option" where
  "time_column v = (case v of PNone \<Rightarrow> Some None | PTime t \<Rightarrow> Some (Some t) | _ \<Rightarrow> None)"

definition id_column :: "env \<Rightarrow> pyval \<Rightarrow> nat option" where
  "id_column env v = (case v of PNone \<Rightarrow> Some (next_id env) | _ \<Rightarrow> bind_id env v)"

definition created_at_column :: "env \<Rightarrow> pyval \<Rightarrow> nat option" where
  "created_at_column env v = (case v of PNone \<Rightarrow> Some (utcnow env) | _ \<Rightarrow> bind_timestamp env v)"

definition row_of :: "env \<Rightarrow> dict \<Rightarrow> poster option" where
  "row_of env d =
     Option.bind (id_column env (get d ''id'')) (\<lambda>i.
     Option.bind (text_column env (get d ''title'')) (\<lambda>ti.
     Option.bind (text_column env (get d ''name'')) (\<lambda>na.
     Option.bind (text_column env (get d ''location'')) (\<lambda>lo.
     Option.bind (text_column env (get d ''socials'')) (\<lambda>so.
     Option.bind (date_column (get d ''event_date'')) (\<lambda>da.
     Option.bind (time_column (get d ''event_time'')) (\<lambda>tm.
     Option.bind (text_column env (get d ''venue'')) (\<lambda>ve.
     Option.bind (text_column env (get d ''hosted_department'')) (\<lambda>de.
     Option.bind (created_at_column env (get d ''created_at'')) (\<lambda>cr.
       Some \<lparr>id_col = i, title = ti, name = na, location = lo, socials = so,
             event_date = da, event_time = tm, venue = ve, hosted_department = de,
             created_at = cr\<rparr>))))))))))"

text \<open>
  Lines 157 to 161: build the object, add, commit, refresh. The commit is
  the only step that changes the store: it appends the row, unless the
  database fails, the statement fails or the key is taken. A failing refresh
  raises after the row is in.
\<close>

definition store_poster :: "env \<Rightarrow> dict \<Rightarrow> store \<Rightarrow> (exn + unit) \<times> store" where
  "store_poster env extracted_data db =
     (case poster_init env extracted_data of
        Some e \<Rightarrow> (Inl e, db)
      | None \<Rightarrow>
         (case db_fails env Commit of
            Some e \<Rightarrow> (Inl e, db)
          | None \<Rightarrow>
             (case row_of env extracted_data of
                None \<Rightarrow> (Inl DBError, db)
              | Some poster_data \<Rightarrow>
                  if id_col poster_data \<in> id_col ` set db then (Inl IntegrityError, db)
                  else (case db_fails env Refresh of
                          Some e \<Rightarrow> (Inl e, db @ [poster_data])
                        | None \<Rightarrow> (Inr (), db @ [poster_data])))))"

text \<open>
  Lines 90 to 172: the \<open>try\<close> around the parsing of the response. The fence
  markers are removed from the text, the text is parsed, the result must be
  a dictionary (anything else has no \<open>get\<close>), date and time are parsed, the
  row is stored. \<open>except json.JSONDecodeError\<close> answers 500.
\<close>

definition strip_fences :: "string \<Rightarrow> string" where
  "strip_fences text = strip (replace (replace (strip text) ''```json'' []) ''```'' [])"

definition parse_and_store :: "env \<Rightarrow> exn + string \<Rightarrow> store \<Rightarrow> (exn + dict) \<times> store" where
  "parse_and_store env response db =
     (case (case response of
              Inl e \<Rightarrow> (Inl e, db)
            | Inr text \<Rightarrow>
               (case json_loads env (strip_fences text) of
                  None \<Rightarrow> (Inl JSONDecodeError, db)
                | Some (PDict extracted_data) \<Rightarrow>
                   (case parse_date_time extracted_data of
                      Inl e \<Rightarrow> (Inl e, db)
                    | Inr extracted_data \<Rightarrow>
                       (case store_poster env extracted_data db of
                          (Inl e, db') \<Rightarrow> (Inl e, db')
                        | (Inr u, db') \<Rightarrow> (Inr extracted_data, db')))
                | Some other \<Rightarrow> (Inl AttributeError, db))) of
        (Inl JSONDecodeError, db') \<Rightarrow> (Inl (HTTPException 500 BadModelJSON), db')
      | r \<Rightarrow> r)"

text \<open>
  The whole handler. The outer \<open>except Exception\<close> catches every exception
  raised inside, \<open>HTTPException\<close> included, and raises \<open>HTTPException\<close> with
  status 500.
\<close>

definition analyze_poster :: "env \<Rightarrow> string \<Rightarrow> store \<Rightarrow> (exn + dict) \<times> store" where
  "analyze_poster env contents db =
     (case (case image_open env contents of
              Some e \<Rightarrow> (Inl e, db)
            | None \<Rightarrow>
               (case generate_content env contents of
                  Inl e \<Rightarrow> (Inl e, db)
                | Inr response \<Rightarrow> parse_and_store env response db)) of
        (Inl e, db') \<Rightarrow> (Inl (HTTPException 500 (StrOf e)), db')
      | (Inr r, db') \<Rightarrow> (Inr r, db'))"

text \<open>
  The status the caller sees: 200 for a result, the status of an
  \<open>HTTPException\<close>, and 500 for any other exception that leaves a handler.
\<close>

definition status :: "exn + 'a \<Rightarrow> nat" where
  "status r = (case r of Inr v \<Rightarrow> 200 | Inl (HTTPException code d) \<Rightarrow> code | Inl e \<Rightarrow> 500)"

section \<open>The read endpoints\<close>

text \<open>
  \<open>ILIKE\<close> of PostgreSQL: in the pattern \<open>%\<close> matches any run of characters,
  \<open>_\<close> any single character, and a backslash makes the next character stand
  for itself; pattern and value are compared in lower case. A pattern that
  ends in a lone backslash is an error (\<open>None\<close>); the endpoints put \<open>%\<close> at
  both ends of what the caller sends, so their pattern never does.
\<close>

datatype like_tok = AnySeq | AnyOne | Ch char

fun like_tokens :: "string \<Rightarrow> like_tok list option" where
  "like_tokens [] = Some []"
| "like_tokens (c # p) =
     (if c = CHR 0x5C then
        (case p of [] \<Rightarrow> None
         | d # q \<Rightarrow> map_option ((#) (Ch d)) (like_tokens q))
      else map_option ((#) (if c = CHR ''%'' then AnySeq
                            else if c = CHR ''_'' then AnyOne else Ch c))
             (like_tokens p))"

fun like_match :: "like_tok list \<Rightarrow> string \<Rightarrow> bool" where
  "like_match [] s = (s = [])"
| "like_match (AnySeq # ts) [] = like_match ts []"
| "like_match (AnySeq # ts) (c # r) = (like_match ts (c # r) \<or> like_match (AnySeq # ts) r)"
| "like_match (AnyOne # ts) [] = False"
| "like_match (AnyOne # ts) (c # r) = like_match ts r"
| "like_match (Ch a # ts) [] = False"
| "like_match (Ch a # ts) (c # r) = (c = a \<and> like_match ts r)"

text \<open>\<open>column.ilike(pattern)\<close> on a row: \<open>NULL\<close> matches nothing.\<close>

definition ilike :: "string option \<Rightarrow> like_tok list \<Rightarrow> bool" where
  "ilike v ts = (case v of None \<Rightarrow> False | Some s \<Rightarrow> like_match ts (lower s))"

fun date_le :: "date \<Rightarrow> date \<Rightarrow> bool" where
  "date_le (Date y1 m1 d1) (Date y2 m2 d2) =
     (y1 < y2 \<or> (y1 = y2 \<and> (m1 < m2 \<or> (m1 = m2 \<and> d1 \<le> d2))))"

fun time_le :: "time \<Rightarrow> time \<Rightarrow> bool" where
  "time_le (Time h1 m1 s1) (Time h2 m2 s2) =
     (h1 < h2 \<or> (h1 = h2 \<and> (m1 < m2 \<or> (m1 = m2 \<and> s1 \<le> s2))))"

text \<open>\<open>Poster.event_date >= today\<close>: false for \<open>NULL\<close>.\<close>

definition upcoming :: "date \<Rightarrow> poster \<Rightarrow> bool" where
  "upcoming t p = (case event_date p of None \<Rightarrow> False | Some d \<Rightarrow> date_le t d)"

text \<open>
  \<open>ORDER BY\<close>, ascending, \<open>NULL\<close> last as PostgreSQL has it. SQL leaves the
  order of rows with equal keys open; here they keep the order of the table.
\<close>

definition nulls_last :: "('a \<Rightarrow> 'a \<Rightarrow> bool) \<Rightarrow> 'a option \<Rightarrow> 'a option \<Rightarrow> bool" where
  "nulls_last le a b =
     (case b of None \<Rightarrow> True
      | Some y \<Rightarrow> (case a of None \<Rightarrow> False | Some x \<Rightarrow> le x y))"

fun insert_by :: "('a \<Rightarrow> 'a \<Rightarrow> bool) \<Rightarrow> 'a \<Rightarrow> 'a list \<Rightarrow> 'a list" where
  "insert_by le x [] = [x]"
| "insert_by le x (y # ys) = (if le x y then x # y # ys else y # insert_by le x ys)"

definition order_by :: "('a \<Rightarrow> 'a \<Rightarrow> bool) \<Rightarrow> 'a list \<Rightarrow> 'a list" where
  "order_by le xs = foldr (insert_by le) xs []"

definition by_event_date :: "poster \<Rightarrow> poster \<Rightarrow> bool" where
  "by_event_date p q = nulls_last date_le (event_date p) (event_date q)"

definition by_event_time :: "poster \<Rightarrow> poster \<Rightarrow> bool" where
  "by_event_time p q = nulls_last time_le (event_time p) (event_time q)"

text \<open>
  The dictionary each endpoint builds for a row. \<open>event.event_date.isoformat()\<close>
  is called whatever the date is, and \<open>None\<close> has no \<open>isoformat\<close>; the time is
  guarded.
\<close>

fun date_isoformat :: "date \<Rightarrow> string" where
  "date_isoformat (Date y m d) = zpad 4 y @ ''-'' @ zpad 2 m @ ''-'' @ zpad 2 d"

fun time_isoformat :: "time \<Rightarrow> string" where
  "time_isoformat (Time h m s) = zpad 2 h @ '':'' @ zpad 2 m @ '':'' @ zpad 2 s"

definition text_val :: "string option \<Rightarrow> pyval" where
  "text_val v = (case v of None \<Rightarrow> PNone | Some s \<Rightarrow> PStr s)"

definition event_json :: "poster \<Rightarrow> exn + dict" where
  "event_json event =
     (case event_date event of
        None \<Rightarrow> Inl AttributeError
      | Some d \<Rightarrow> Inr
         [(''id'', PInt (int (id_col event))),
          (''title'', text_val (title event)),
          (''name'', text_val (name event)),
          (''location'', text_val (location event)),
          (''socials'', text_val (socials event)),
          (''event_date'', PStr (date_isoformat d)),
          (''event_time'', (case event_time event of None \<Rightarrow> PNone
                            | Some t \<Rightarrow> PStr (time_isoformat t))),
          (''venue'', text_val (venue event)),
          (''hosted_department'', text_val (hosted_department event))])"

fun serialize_all :: "poster list \<Rightarrow> exn + dict list" where
  "serialize_all [] = Inr []"
| "serialize_all (event # events) =
     (case event_json event of
        Inl e \<Rightarrow> Inl e
      | Inr j \<Rightarrow> (case serialize_all events of Inl e \<Rightarrow> Inl e | Inr js \<Rightarrow> Inr (j # js)))"

text \<open>\<open>except Exception as e: raise HTTPException(status_code=500, detail=str(e))\<close>\<close>

definition catch_all :: "exn + 'a \<Rightarrow> exn + 'a" where
  "catch_all r = (case r of Inl e \<Rightarrow> Inl (HTTPException 500 (StrOf e)) | Inr v \<Rightarrow> Inr v)"

definition get_upcoming_events :: "env \<Rightarrow> store \<Rightarrow> exn + dict list" where
  "get_upcoming_events env db =
     catch_all
      (case db_fails env Query of
         Some e \<Rightarrow> Inl e
       | None \<Rightarrow> serialize_all (order_by by_event_date (filter (upcoming (today env)) db)))"

text \<open>
  The endpoints by location, venue and department are the same code on three
  columns.
\<close>

definition events_by_column ::
  "(poster \<Rightarrow> string option) \<Rightarrow> env \<Rightarrow> string \<Rightarrow> bool \<Rightarrow> store \<Rightarrow> exn + dict list" where
  "events_by_column col env q upcoming_only db =
     catch_all
      (case db_fails env Query of
         Some e \<Rightarrow> Inl e
       | None \<Rightarrow>
          (case like_tokens (lower (''%'' @ q @ ''%'')) of
             None \<Rightarrow> Inl DBError
           | Some ts \<Rightarrow>
               serialize_all (order_by by_event_date
                 (filter (\<lambda>p. ilike (col p) ts \<and> (upcoming_only \<longrightarrow> upcoming (today env) p))
                    db))))"

definition get_events_by_location :: "env \<Rightarrow> string \<Rightarrow> bool \<Rightarrow> store \<Rightarrow> exn + dict list" where
  "get_events_by_location = events_by_column location"

definition get_events_by_venue :: "env \<Rightarrow> string \<Rightarrow> bool \<Rightarrow> store \<Rightarrow> exn + dict list" where
  "get_events_by_venue = events_by_column venue"

definition get_events_by_department :: "env \<Rightarrow> string \<Rightarrow> bool \<Rightarrow> store \<Rightarrow> exn + dict list" where
  "get_events_by_department = events_by_column hosted_department"

definition get_events_by_date :: "env \<Rightarrow> string \<Rightarrow> store \<Rightarrow> exn + dict list" where
  "get_events_by_date env date db =
     catch_all
      (case strptime date ''%Y-%m-%d'' of
         Inl e \<Rightarrow> Inl (HTTPException 400 InvalidDateQuery)
       | Inr dt \<Rightarrow>
          (case db_fails env Query of
             Some e \<Rightarrow> Inl e
           | None \<Rightarrow> serialize_all (order_by by_event_time
                       (filter (\<lambda>p. event_date p = Some (fst dt)) db))))"

text \<open>
  The six routes of \<open>app\<close>, and a request served on a store: the answer and
  the store afterwards. Only \<open>analyze_poster\<close> writes.
\<close>

datatype request = AnalyzePoster string | UpcomingEvents | EventsByLocation string bool
  | EventsByDate string | EventsByVenue string bool | EventsByDepartment string bool

definition events_body :: "exn + dict list \<Rightarrow> exn + pyval" where
  "events_body r = (case r of Inl e \<Rightarrow> Inl e | Inr js \<Rightarrow> Inr (PList (map PDict js)))"

fun handle :: "env \<Rightarrow> request \<Rightarrow> store \<Rightarrow> (exn + pyval) \<times> store" where
  "handle env (AnalyzePoster contents) db =
     (case analyze_poster env contents db of
        (Inl e, db') \<Rightarrow> (Inl e, db')
      | (Inr d, db') \<Rightarrow>
          (Inr (PDict [(''message'', PStr ''Poster analyzed successfully''),
                       (''data'', PDict d)]), db'))"
| "handle env UpcomingEvents db = (events_body (get_upcoming_events env db), db)"
| "handle env (EventsByLocation q u) db = (events_body (get_events_by_location env q u db), db)"
| "handle env (EventsByDate d) db = (events_body (get_events_by_date env d db), db)"
| "handle env (EventsByVenue q u) db = (events_body (get_events_by_venue env q u db), db)"
| "handle env (EventsByDepartment q u) db =
     (events_body (get_events_by_department env q u db), db)"

text \<open>A sequence of requests, each served in the environment of its moment.\<close>

fun run :: "(env \<times> request) list \<Rightarrow> store \<Rightarrow> store" where
  "run [] db = db"
| "run ((env, req) # rest) db = run rest (snd (handle env req db))"

text \<open>
  What it means for a column to contain the query: the lower-cased query is
  a contiguous part of the lower-cased value; \<open>NULL\<close> contains nothing.
\<close>

definition contains_ci :: "string option \<Rightarrow> string \<Rightarrow> bool" where
  "contains_ci v q = (case v of None \<Rightarrow> False | Some s \<Rightarrow> sublist (lower q) (lower s))"

text \<open>The rows a pattern query selects, before they are ordered.\<close>

definition selected :: "(poster \<Rightarrow> string option) \<Rightarrow> string \<Rightarrow> poster \<Rightarrow> bool" where
  "selected col q p =
     (case like_tokens (lower (''%'' @ q @ ''%'')) of
        None \<Rightarrow> False
      | Some ts \<Rightarrow> ilike (col p) ts)"

definition like_special :: "char \<Rightarrow> bool" where
  "like_special c = (c = CHR ''%'' \<or> c = CHR ''_'' \<or> c = CHR 0x5C)"

text \<open>Two rows in ascending order of their dates, both present.\<close>

definition date_ascending :: "poster \<Rightarrow> poster \<Rightarrow> bool" where
  "date_ascending p q =
     (case event_date p of None \<Rightarrow> False
      | Some a \<Rightarrow> (case event_date q of None \<Rightarrow> False | Some b \<Rightarrow> date_le a b))"

section \<open>Example data\<close>

text \<open>
  An environment in which every collaborator works: the image decoder
  refuses only the empty upload, the class has the attribute \<open>metadata\<close>
  besides its columns, the model answers \<open>answer\<close>, and
  \<open>json.loads\<close> knows four answers: one that is no JSON, one with a date that
  is not \<open>YYYY-MM-DD\<close>, one with a time nothing parses, and a good one.
\<close>

definition example_loads :: "string \<Rightarrow> pyval option" where
  "example_loads text =
     (if text = ''bad date'' then
        Some (PDict [(''title'', PStr ''Expo''), (''event_date'', PStr ''13/01/2024'')])
      else if text = ''bad time'' then
        Some (PDict [(''title'', PStr ''Expo''), (''event_date'', PStr ''2024-01-13''),
                     (''event_time'', PStr ''late evening'')])
      else if text = ''good'' then
        Some (PDict [(''title'', PStr ''Expo''), (''location'', PStr ''City Hall''),
                     (''event_date'', PStr ''2024-01-13''),
                     (''event_time'', PStr ''5:30 PM onwards'')])
      else None)"

definition example_env :: "string \<Rightarrow> env" where
  "example_env answer =
     \<lparr>image_open = (\<lambda>contents. if contents = [] then Some (External ''no image'') else None),
      generate_content = (\<lambda>contents. Inr (Inr answer)),
      json_loads = example_loads,
      today = Date 2024 1 13,
      utcnow = 0,
      db_fails = (\<lambda>op. None),
      next_id = 7,
      bind_text = (\<lambda>v. None),
      bind_id = (\<lambda>v. None),
      bind_timestamp = (\<lambda>v. None),
      setattr_other = (\<lambda>k v. if k = ''metadata'' then Some None else None)\<rparr>"

definition example_row :: "nat \<Rightarrow> string \<Rightarrow> date option \<Rightarrow> poster" where
  "example_row i loc d =
     \<lparr>id_col = i, title = Some ''Expo'', name = None, location = Some loc, socials = None,
      event_date = d, event_time = None, venue = Some loc, hosted_department = Some loc,
      created_at = 0\<rparr>"

section \<open>The cleaning step is blind substring removal\<close>

text \<open>
  None of the words removed or padded contains whitespace, so an occurrence
  never touches the whitespace at either end of the string: stripping between
  the removals changes nothing that the final strip does not undo.
\<close>

lemma replace_from_space_head:
  assumes "isspace c" "nospace old"
  shows "replace_from old new (c # s) = c # replace_from old new s"
proof (cases old)
  case Nil then show ?thesis by simp
next
  case (Cons a w)
  with assms have "a \<noteq> c" by (auto simp: nospace_def)
  with Cons show ?thesis by simp
qed

lemma replace_from_space_prefix:
  "list_all isspace ws \<Longrightarrow> nospace old \<Longrightarrow>
   replace_from old new (ws @ s) = ws @ replace_from old new s"
  by (induction ws) (simp_all add: replace_from_space_head del: replace_from.simps)

lemma take_eq_imp_le: "take (length old) t = old \<Longrightarrow> length old \<le> length t"
proof -
  assume "take (length old) t = old"
  then have "length (take (length old) t) = length old" by simp
  then show ?thesis by simp
qed

lemma take_eq_nospace:
  assumes "list_all isspace ws" "nospace old"
  shows "(take (length old) (t @ ws) = old) = (take (length old) t = old)"
proof (cases "length old \<le> length t")
  case True then show ?thesis by simp
next
  case False
  then have lt: "length t < length old" by simp
  have a: "take (length old) t \<noteq> old" using lt take_eq_imp_le [of old t] by auto
  have "take (length old) (t @ ws) \<noteq> old"
  proof
    assume eq: "take (length old) (t @ ws) = old"
    then have le: "length old \<le> length (t @ ws)" by (rule take_eq_imp_le)
    define k where "k = length old - length t"
    have k: "0 < k" "k \<le> length ws" using lt le by (auto simp: k_def)
    have old: "old = t @ take k ws" using eq lt by (simp add: k_def)
    from k obtain x where x: "x \<in> set (take k ws)" by (cases ws; cases k) auto
    then have "x \<in> set ws" by (rule in_set_takeD)
    with assms(1) have "isspace x" by (simp add: list_all_iff)
    moreover from x old have "x \<in> set old" by simp
    ultimately show False using assms(2) by (auto simp: nospace_def)
  qed
  with a show ?thesis by simp
qed

lemma replace_from_hit:
  "old \<noteq> [] \<Longrightarrow> take (length old) (c # s) = old \<Longrightarrow>
   replace_from old new (c # s) = new @ replace_from old new (drop (length old - 1) s)"
  by simp

lemma replace_from_miss:
  "\<not> (old \<noteq> [] \<and> take (length old) (c # s) = old) \<Longrightarrow>
   replace_from old new (c # s) = c # replace_from old new s"
  by auto

lemma replace_from_space_suffix:
  "list_all isspace ws \<Longrightarrow> nospace old \<Longrightarrow>
   replace_from old new (s @ ws) = replace_from old new s @ ws"
proof (induction old new s rule: replace_from.induct)
  case (1 old new)
  then show ?case using replace_from_space_prefix [of ws old new "[]"] by simp
next
  case (2 old new c s)
  have tk: "(take (length old) (c # s @ ws) = old) = (take (length old) (c # s) = old)"
    using take_eq_nospace [OF 2(3,4), of "c # s"] by simp
  show ?case
  proof (cases "old \<noteq> [] \<and> take (length old) (c # s) = old")
    case True
    then have "length old \<le> length (c # s)" using take_eq_imp_le by blast
    then have len: "length old - 1 \<le> length s" by simp
    from True tk have T2: "old \<noteq> []" "take (length old) (c # s @ ws) = old" by simp_all
    have "replace_from old new ((c # s) @ ws)
        = new @ replace_from old new (drop (length old - 1) (s @ ws))"
      using replace_from_hit [OF T2] by simp
    also have "drop (length old - 1) (s @ ws) = drop (length old - 1) s @ ws"
      using len by simp
    also have "replace_from old new (drop (length old - 1) s @ ws)
        = replace_from old new (drop (length old - 1) s) @ ws"
      using 2(1) [OF True 2(3,4)] .
    also have "new @ replace_from old new (drop (length old - 1) s) @ ws
        = replace_from old new (c # s) @ ws"
      using replace_from_hit [of old c s new] True by simp
    finally show ?thesis .
  next
    case False
    with tk have F2: "\<not> (old \<noteq> [] \<and> take (length old) (c # s @ ws) = old)" by blast
    have "replace_from old new ((c # s) @ ws) = c # replace_from old new (s @ ws)"
      using replace_from_miss [OF F2] by simp
    also have "replace_from old new (s @ ws) = replace_from old new s @ ws"
      using 2(2) [OF False 2(3,4)] .
    also have "c # replace_from old new s @ ws = replace_from old new (c # s) @ ws"
      using replace_from_miss [OF False] by simp
    finally show ?thesis .
  qed
qed

lemma dropWhile_all_prefix: "list_all P a \<Longrightarrow> dropWhile P (a @ x) = dropWhile P x"
  by (induction a) auto

lemma strip_space_prefix: "list_all isspace a \<Longrightarrow> strip (a @ x) = strip x"
  by (simp add: strip_def dropWhile_all_prefix)

lemma strip_space_suffix:
  assumes "list_all isspace b" shows "strip (x @ b) = strip x"
proof (cases "list_all isspace x")
  case True
  have "dropWhile isspace (x @ b) = []" and "dropWhile isspace x = []"
    using True assms by (auto simp: list_all_iff)
  then have "dropWhile isspace (x @ b) = dropWhile isspace x" by (simp only:)
  then show ?thesis unfolding strip_def by (simp only:)
next
  case False
  then obtain c where c: "c \<in> set x" "\<not> isspace c" by (auto simp: list_all_iff)
  then have "dropWhile isspace (x @ b) = dropWhile isspace x @ b"
    by (rule dropWhile_append1)
  moreover have "list_all isspace (rev b)" using assms by (simp add: list_all_iff)
  ultimately show ?thesis by (simp add: strip_def dropWhile_all_prefix)
qed

lemma strip_decomp:
  "\<exists>a b. list_all isspace a \<and> list_all isspace b \<and> s = a @ strip s @ b"
proof -
  let ?l = "dropWhile isspace s"
  have 1: "s = takeWhile isspace s @ ?l" by simp
  have "rev ?l = takeWhile isspace (rev ?l) @ dropWhile isspace (rev ?l)" by simp
  then have "?l = rev (dropWhile isspace (rev ?l)) @ rev (takeWhile isspace (rev ?l))"
    by (metis rev_append rev_rev_ident)
  then have 2: "?l = strip s @ rev (takeWhile isspace (rev ?l))" by (simp add: strip_def)
  have a: "list_all isspace (takeWhile isspace s)"
    by (auto simp: list_all_iff dest: set_takeWhileD)
  have b: "list_all isspace (rev (takeWhile isspace (rev ?l)))"
    by (auto simp: list_all_iff dest: set_takeWhileD)
  from 1 2 have "s = takeWhile isspace s @ strip s @ rev (takeWhile isspace (rev ?l))"
    by metis
  with a b show ?thesis by blast
qed

lemma strip_replace_from_strip:
  assumes "nospace old"
  shows "strip (replace_from old new (strip s)) = strip (replace_from old new s)"
proof -
  obtain a b where ab: "list_all isspace a" "list_all isspace b" "s = a @ strip s @ b"
    using strip_decomp by blast
  have "replace_from old new (a @ strip s @ b) = a @ replace_from old new (strip s) @ b"
    using ab(1,2) assms by (simp add: replace_from_space_prefix replace_from_space_suffix)
  then have "strip (replace_from old new (a @ strip s @ b)) = strip (replace_from old new (strip s))"
    using ab(1,2) by (simp add: strip_space_prefix strip_space_suffix)
  with ab(3) show ?thesis by simp
qed

lemma strip_replace_cong:
  assumes "nospace old" "old \<noteq> []" "strip x = strip y"
  shows "strip (replace x old new) = strip (replace y old new)"
proof -
  have "strip (replace_from old new x) = strip (replace_from old new (strip x))"
    using strip_replace_from_strip [OF assms(1)] by simp
  also have "\<dots> = strip (replace_from old new y)"
    using assms(3) strip_replace_from_strip [OF assms(1)] by simp
  finally show ?thesis using assms(2) by (simp add: replace_def)
qed

lemma strip_strip: "strip (strip s) = strip s"
proof -
  obtain a b where ab: "list_all isspace a" "list_all isspace b" "s = a @ strip s @ b"
    using strip_decomp by blast
  have "strip (a @ strip s @ b) = strip (strip s)"
    using ab(1,2) by (simp add: strip_space_prefix strip_space_suffix)
  with ab(3) show ?thesis by simp
qed

lemma nospace_words:
  "nospace ''onwards''" "nospace ''onward''" "nospace ''starting''" "nospace ''from''"
  "nospace ''at''" "nospace ''pm''" "nospace ''am''"
  by (simp_all add: nospace_def isspace_def)

lemma clean_time_string_spec: "clean_time_string raw = spec_clean raw"
proof -
  let ?l = "lower raw"
  let ?r1 = "replace ?l ''onwards'' []"
  let ?r2 = "replace ?r1 ''onward'' []"
  let ?r3 = "replace ?r2 ''starting'' []"
  let ?r4 = "replace ?r3 ''from'' []"
  let ?r5 = "replace ?r4 ''at'' []"
  let ?c1 = "strip (replace ?l ''onwards'' [])"
  let ?c2 = "strip (replace ?c1 ''onward'' [])"
  let ?c3 = "strip (replace ?c2 ''starting'' [])"
  let ?c4 = "strip (replace ?c3 ''from'' [])"
  let ?c5 = "strip (replace ?c4 ''at'' [])"
  have 1: "strip ?c1 = strip ?r1" by (rule strip_strip)
  have "strip (replace ?c1 ''onward'' []) = strip ?r2"
    by (rule strip_replace_cong [OF nospace_words(2) _ 1]) simp
  then have 2: "strip ?c2 = strip ?r2" by (simp only: strip_strip)
  have "strip (replace ?c2 ''starting'' []) = strip ?r3"
    by (rule strip_replace_cong [OF nospace_words(3) _ 2]) simp
  then have 3: "strip ?c3 = strip ?r3" by (simp only: strip_strip)
  have "strip (replace ?c3 ''from'' []) = strip ?r4"
    by (rule strip_replace_cong [OF nospace_words(4) _ 3]) simp
  then have 4: "strip ?c4 = strip ?r4" by (simp only: strip_strip)
  have "strip (replace ?c4 ''at'' []) = strip ?r5"
    by (rule strip_replace_cong [OF nospace_words(5) _ 4]) simp
  then have 5: "strip ?c5 = strip ?r5" by (simp only: strip_strip)
  have 6: "strip (replace ?c5 ''pm'' '' PM'') = strip (replace ?r5 ''pm'' '' PM'')"
    by (rule strip_replace_cong [OF nospace_words(6) _ 5]) simp
  have 7: "strip (replace (replace ?c5 ''pm'' '' PM'') ''am'' '' AM'')
         = strip (replace (replace ?r5 ''pm'' '' PM'') ''am'' '' AM'')"
    by (rule strip_replace_cong [OF nospace_words(7) _ 6]) simp
  have "clean_time_string raw = strip (replace (replace ?c5 ''pm'' '' PM'') ''am'' '' AM'')"
    by (simp add: clean_time_string_def words_to_remove_def Let_def)
  with 7 show ?thesis by (simp only: spec_clean_def)
qed

text \<open>
  C2. For every input, \<open>clean_time_string\<close> is the lower-cased input with
  every occurrence of \<open>onwards\<close>, \<open>onward\<close>, \<open>starting\<close>, \<open>from\<close> and
  \<open>at\<close> removed in turn by plain substring replacement (inside other words
  too), then \<open>pm\<close> replaced by \<open> PM\<close> and \<open>am\<close> by \<open> AM\<close>, then trimmed;
  \<open>atlantic\<close> loses its \<open>at\<close>.
\<close>

theorem clean_time_string_blind_removal:
  "clean_time_string raw = spec_clean raw \<and> clean_time_string ''atlantic'' = ''lantic''"
proof -
  have ex: "clean_time_string ''atlantic'' = ''lantic''"
    by (simp add: clean_time_string_def words_to_remove_def replace_def strip_def lower_def
        lower_char_def isupper_def isspace_def)
  from clean_time_string_spec ex show ?thesis by (rule conjI)
qed

section \<open>Status codes and the store on failure\<close>

lemmas strptime_eval = strptime_def re_match_def directive_def digit_range_def lit_i_def
  isdigit_def isspace_def field_def hour_of_def group_def int_of_str_def strip_def digit_val_def
  valid_datetime_def days_in_month_def is_leap_def lower_def lower_char_def isupper_def

lemmas clean_eval = clean_time_string_def words_to_remove_def replace_def strip_def lower_def
  lower_char_def isupper_def isspace_def

lemmas time_eval = parse_event_time_def time_formats_def regex_fallback_def time_pattern_def
  lit_def pad2_def zpad_def str_nat.simps

lemma status_catch_all: "status (catch_all r) = (case r of Inl e \<Rightarrow> 500 | Inr v \<Rightarrow> 200)"
  by (simp add: status_def catch_all_def split: sum.splits)

lemma status_analyze_poster:
  "status (fst (analyze_poster env contents db)) = 200 \<or>
   status (fst (analyze_poster env contents db)) = 500"
  by (simp add: analyze_poster_def status_def split: option.splits sum.splits prod.splits)

lemma bad_date_strptime: "strptime ''13/01/2024'' ''%Y-%m-%d'' = Inl (NoMatch ''13/01/2024'' ''%Y-%m-%d'')"
  by (simp add: strptime_eval)

lemma analyze_poster_bad_date: "fst (analyze_poster (example_env ''bad date'') ''poster'' db) = 
   Inl (HTTPException 500 (StrOf (HTTPException 400 (InvalidDateTime (NoMatch ''13/01/2024'' ''%Y-%m-%d'')))))"
  by (simp add: analyze_poster_def example_env_def parse_and_store_def example_loads_def
      strip_fences_def clean_eval parse_date_time_def parse_event_date_def get_def bad_date_strptime
      is_ValueError_def)

lemma late_evening: "parse_event_time ''late evening'' = Inl (ValueError (CouldNotParse ''late evening''))"
  by (simp add: time_eval clean_eval strptime_eval)

lemma good_date: "strptime ''2024-01-13'' ''%Y-%m-%d'' = Inr (Date 2024 1 13, Time 0 0 0)"
  by (simp add: strptime_eval)

lemma analyze_poster_bad_time: "fst (analyze_poster (example_env ''bad time'') ''poster'' db) = 
   Inl (HTTPException 500 (StrOf (HTTPException 400 (InvalidDateTime (CouldNotParse ''late evening'')))))"
  by (simp add: analyze_poster_def example_env_def parse_and_store_def example_loads_def
      strip_fences_def clean_eval parse_date_time_def parse_event_date_def get_def good_date
      is_ValueError_def parse_event_time_field_def setitem_def late_evening)


lemma get_setitem_other: "k \<noteq> k' \<Longrightarrow> get (setitem d k v) k' = get d k'"
  by (simp add: get_def setitem_def update_conv')

lemma parse_date_fails:
  assumes "get d ''event_date'' = PStr s" "s \<noteq> []" "strptime s ''%Y-%m-%d'' = Inl e"
  shows "parse_date_time d = Inl (HTTPException 400 (InvalidDateTime e))"
  using assms by (simp add: parse_date_time_def parse_event_date_def is_ValueError_def)

lemma parse_event_date_keeps_time:
  "parse_event_date d = Inr d' \<Longrightarrow> get d' ''event_time'' = get d ''event_time''"
  by (auto simp: parse_event_date_def get_setitem_other split: if_splits pyval.splits sum.splits)

lemma parse_time_fails:
  assumes "get d ''event_time'' = PStr s" "s \<noteq> []" "parse_event_time s = Inl e"
  shows "\<exists>e'. parse_date_time d = Inl e'"
proof (cases "parse_event_date d")
  case (Inl a)
  then show ?thesis by (simp add: parse_date_time_def)
next
  case (Inr d')
  then have "get d' ''event_time'' = PStr s" using assms(1) parse_event_date_keeps_time by simp
  then have "parse_event_time_field d' = Inl e" using assms(2,3)
    by (simp add: parse_event_time_field_def)
  with Inr show ?thesis by (simp add: parse_date_time_def)
qed

lemma parse_date_time_not_json: "parse_date_time d \<noteq> Inl JSONDecodeError"
  by (auto simp: parse_date_time_def is_ValueError_def split: sum.splits if_splits)

lemma analyze_poster_parse_fails:
  assumes "image_open env contents = None" "generate_content env contents = Inr (Inr tx)"
    "json_loads env (strip_fences tx) = Some (PDict d)" "parse_date_time d = Inl e"
  shows "analyze_poster env contents db = (Inl (HTTPException 500 (StrOf e)), db)"
proof -
  have "e \<noteq> JSONDecodeError" using assms(4) parse_date_time_not_json [of d] by auto
  then show ?thesis using assms
    by (cases e) (simp_all add: analyze_poster_def parse_and_store_def)
qed

lemma analyze_poster_bad_json:
  assumes "image_open env contents = None" "generate_content env contents = Inr (Inr tx)"
    "json_loads env (strip_fences tx) = None"
  shows "analyze_poster env contents db
         = (Inl (HTTPException 500 (StrOf (HTTPException 500 BadModelJSON))), db)"
  using assms by (simp add: analyze_poster_def parse_and_store_def)

lemma analyze_poster_bad_image:
  assumes "image_open env contents = Some e"
  shows "analyze_poster env contents db = (Inl (HTTPException 500 (StrOf e)), db)"
  using assms by (simp add: analyze_poster_def)

text \<open>
  C6. A request to \<open>/analyze-poster\<close> that fails in the extraction path (the
  image does not decode, the model's text is no JSON once the fences are
  removed, \<open>event_date\<close> is a string \<open>strptime\<close> rejects, or \<open>event_time\<close> is a
  string no strategy parses) answers an error and leaves the store exactly
  as it was.
\<close>

theorem failed_extraction_inserts_nothing:
  assumes "image_open env contents \<noteq> None
     \<or> (image_open env contents = None \<and>
        (\<exists>tx. generate_content env contents = Inr (Inr tx) \<and>
          (json_loads env (strip_fences tx) = None
           \<or> (\<exists>d. json_loads env (strip_fences tx) = Some (PDict d) \<and>
                ((\<exists>s e. get d ''event_date'' = PStr s \<and> s \<noteq> [] \<and>
                        strptime s ''%Y-%m-%d'' = Inl e)
                 \<or> (\<exists>s e. get d ''event_time'' = PStr s \<and> s \<noteq> [] \<and>
                        parse_event_time s = Inl e))))))"
  shows "snd (analyze_poster env contents db) = db \<and>
         status (fst (analyze_poster env contents db)) = 500"
proof -
  have "\<exists>e. analyze_poster env contents db = (Inl (HTTPException 500 (StrOf e)), db)"
    using assms
  proof (elim disjE conjE exE)
    assume "image_open env contents \<noteq> None"
    then show ?thesis using analyze_poster_bad_image by fastforce
  next
    fix tx
    assume "image_open env contents = None" "generate_content env contents = Inr (Inr tx)"
      "json_loads env (strip_fences tx) = None"
    then show ?thesis using analyze_poster_bad_json by blast
  next
    fix tx d s e
    assume a: "image_open env contents = None" "generate_content env contents = Inr (Inr tx)"
      "json_loads env (strip_fences tx) = Some (PDict d)"
      and b: "get d ''event_date'' = PStr s" "s \<noteq> []" "strptime s ''%Y-%m-%d'' = Inl e"
    from parse_date_fails [OF b] analyze_poster_parse_fails [OF a] show ?thesis by blast
  next
    fix tx d s e
    assume a: "image_open env contents = None" "generate_content env contents = Inr (Inr tx)"
      "json_loads env (strip_fences tx) = Some (PDict d)"
      and b: "get d ''event_time'' = PStr s" "s \<noteq> []" "parse_event_time s = Inl e"
    from parse_time_fails [OF b] analyze_poster_parse_fails [OF a] show ?thesis by blast
  qed
  then show ?thesis by (auto simp: status_def)
qed

theorem failed_extraction_inserts_nothing_witness:
  "snd (analyze_poster (example_env ''not json'') ''poster'' [example_row 1 ''City Hall'' None])
     = [example_row 1 ''City Hall'' None]
   \<and> snd (analyze_poster (example_env ''bad date'') ''poster'' []) = []
   \<and> snd (analyze_poster (example_env ''bad time'') ''poster'' []) = []
   \<and> snd (analyze_poster (example_env ''good'') [] []) = []"
proof -
  have sf: "\<And>t. strip_fences ''not json'' = ''not json''" "strip_fences ''bad date'' = ''bad date''"
     "strip_fences ''bad time'' = ''bad time''"
    by (simp_all add: strip_fences_def clean_eval)
  have 1: "snd (analyze_poster (example_env ''not json'') ''poster'' [example_row 1 ''City Hall'' None])
     = [example_row 1 ''City Hall'' None]"
    using failed_extraction_inserts_nothing
      [of "example_env ''not json''" "''poster''" "[example_row 1 ''City Hall'' None]"]
    by (simp add: example_env_def example_loads_def sf)
  have 2: "snd (analyze_poster (example_env ''bad date'') ''poster'' []) = []"
    using failed_extraction_inserts_nothing [of "example_env ''bad date''" "''poster''" "[]"]
    by (simp add: example_env_def example_loads_def sf get_def bad_date_strptime)
  have 3: "snd (analyze_poster (example_env ''bad time'') ''poster'' []) = []"
    using failed_extraction_inserts_nothing [of "example_env ''bad time''" "''poster''" "[]"]
    by (simp add: example_env_def example_loads_def sf get_def late_evening)
  have 4: "snd (analyze_poster (example_env ''good'') [] []) = []"
    using failed_extraction_inserts_nothing [of "example_env ''good''" "[]" "[]"]
    by (simp add: example_env_def)
  from 1 2 3 4 show ?thesis by simp
qed

text \<open>
  C1. What the code does where the claim expects status 400: the
  \<open>HTTPException\<close> with status 400 is raised inside the outer \<open>try\<close>, whose
  \<open>except Exception\<close> catches it and raises status 500. The date
  \<open>13/01/2024\<close> sent to \<open>/events/by-date\<close> is answered 500, a model answer
  with that date, or with a time nothing parses, is answered 500, and neither
  endpoint ever answers 400.
\<close>

theorem malformed_input_answers_500:
  "status (get_events_by_date env ''13/01/2024'' db) = 500
   \<and> status (fst (analyze_poster (example_env ''bad date'') ''poster'' db)) = 500
   \<and> status (fst (analyze_poster (example_env ''bad time'') ''poster'' db)) = 500
   \<and> status (get_events_by_date env date db) \<noteq> 400
   \<and> status (fst (analyze_poster env contents db)) \<noteq> 400"
proof -
  have 1: "status (get_events_by_date env ''13/01/2024'' db) = 500"
    by (simp add: get_events_by_date_def status_catch_all bad_date_strptime)
  have 2: "status (fst (analyze_poster (example_env ''bad date'') ''poster'' db)) = 500"
    by (simp add: analyze_poster_bad_date status_def)
  have 3: "status (fst (analyze_poster (example_env ''bad time'') ''poster'' db)) = 500"
    by (simp add: analyze_poster_bad_time status_def)
  have 4: "status (get_events_by_date env date db) \<noteq> 400"
    by (simp add: get_events_by_date_def status_catch_all split: sum.splits)
  have 5: "status (fst (analyze_poster env contents db)) \<noteq> 400"
    using status_analyze_poster [of env contents db] by auto
  from 1 2 3 4 5 show ?thesis by simp
qed

section \<open>Stored rows are never changed\<close>

lemma store_poster_appends:
  "\<exists>new. snd (store_poster env d db) = db @ new \<and> length new \<le> 1"
  by (simp add: store_poster_def split: option.splits)

lemma snd_store_cases:
  "snd (case r of (Inl e, db') \<Rightarrow> (Inl e, db') | (Inr u, db') \<Rightarrow> (Inr x, db'))
   = snd (r :: (exn + unit) \<times> store)"
  by (auto split: prod.splits sum.splits)

lemma snd_json_handler:
  "snd (case r of (Inl JSONDecodeError, db') \<Rightarrow> (Inl (HTTPException 500 BadModelJSON), db')
        | r \<Rightarrow> r) = snd (r :: (exn + dict) \<times> store)"
  by (auto split: prod.splits sum.splits exn.splits)

lemma parse_and_store_snd:
  "snd (parse_and_store env response db) = db \<or>
   (\<exists>d. snd (parse_and_store env response db) = snd (store_poster env d db))"
  unfolding parse_and_store_def snd_json_handler
  by (auto simp: snd_store_cases split: sum.splits option.splits pyval.splits)

lemma parse_and_store_appends:
  "\<exists>new. snd (parse_and_store env response db) = db @ new \<and> length new \<le> 1"
  using parse_and_store_snd [of env response db] store_poster_appends [of env _ db]
  by (metis append_Nil2 le0 list.size(3))

lemma analyze_poster_appends:
  "\<exists>new. snd (analyze_poster env contents db) = db @ new \<and> length new \<le> 1"
proof -
  have *: "\<And>r. snd (case r of (Inl e, db') \<Rightarrow> (Inl (HTTPException 500 (StrOf e)), db')
                      | (Inr v, db') \<Rightarrow> (Inr v, db')) = snd (r :: (exn + dict) \<times> store)"
    by (auto split: prod.splits sum.splits)
  show ?thesis
    unfolding analyze_poster_def *
    using parse_and_store_appends [of env _ db]
    by (auto split: sum.splits option.splits)
qed

lemma handle_appends:
  "\<exists>new. snd (handle env req db) = db @ new \<and> length new \<le> 1"
proof (cases req)
  case (AnalyzePoster contents)
  have "snd (handle env (AnalyzePoster contents) db) = snd (analyze_poster env contents db)"
    by (auto split: prod.splits sum.splits)
  with AnalyzePoster analyze_poster_appends [of env contents db] show ?thesis by simp
qed simp_all

lemma run_prefix: "prefix db (run rs db)"
proof (induction rs arbitrary: db)
  case Nil
  then show ?case by simp
next
  case (Cons a rs)
  obtain env req where a: "a = (env, req)" by (cases a)
  obtain new where "snd (handle env req db) = db @ new" using handle_appends by blast
  then have "prefix db (snd (handle env req db))" by simp
  also have "prefix (snd (handle env req db)) (run rs (snd (handle env req db)))"
    by (rule Cons.IH)
  finally show ?case using a by simp
qed

text \<open>
  C9. Serving any request leaves every stored row as it is, in its place:
  the store before is a prefix of the store after, at most one row longer;
  the same holds after any sequence of requests; and the five read
  endpoints leave the store unchanged, so rows come only from
  \<open>/analyze-poster\<close>.
\<close>

theorem stored_records_immutable:
  "prefix db (snd (handle env req db))
   \<and> length (snd (handle env req db)) \<le> length db + 1
   \<and> prefix db (run rs db)
   \<and> snd (handle env UpcomingEvents db) = db
   \<and> snd (handle env (EventsByLocation q u) db) = db
   \<and> snd (handle env (EventsByDate d) db) = db
   \<and> snd (handle env (EventsByVenue q u) db) = db
   \<and> snd (handle env (EventsByDepartment q u) db) = db"
proof -
  obtain new where n: "snd (handle env req db) = db @ new" "length new \<le> 1"
    using handle_appends by blast
  then have "prefix db (snd (handle env req db))"
    and "length (snd (handle env req db)) \<le> length db + 1" by simp_all
  then show ?thesis using run_prefix [of db rs] by simp
qed

section \<open>Patterns of \<open>ILIKE\<close>\<close>

lemma isupper_bits:
  "isupper (Char b0 b1 b2 b3 b4 b5 b6 b7) \<Longrightarrow> b6 \<and> \<not> b5"
  by (cases b5; cases b6; cases b7; cases b4; cases b3; simp add: isupper_def; cases b2; cases b1; cases b0; simp)

lemma special_not_upper: "like_special c \<Longrightarrow> \<not> isupper c"
  by (auto simp: like_special_def isupper_def)

lemma lower_char_special: "like_special (lower_char c) = like_special c"
proof (cases c)
  case (Char b0 b1 b2 b3 b4 b5 b6 b7)
  show ?thesis
  proof (cases "isupper c")
    case True
    with Char have "b6 \<and> \<not> b5" using isupper_bits by blast
    then have "\<not> like_special (lower_char c)"
      using True Char by (simp add: lower_char_def like_special_def)
    moreover have "\<not> like_special c" using True special_not_upper by blast
    ultimately show ?thesis by simp
  next
    case False
    then show ?thesis by (simp add: lower_char_def)
  qed
qed

lemma like_match_any: "like_match [AnySeq] s"
  by (induction s) simp_all

lemma like_match_AnySeq_fwd:
  "like_match (AnySeq # ts) s \<Longrightarrow> \<exists>t. suffix t s \<and> like_match ts t"
proof (induction s)
  case Nil
  then have "like_match ts []" by simp
  then have "suffix [] ([]::string) \<and> like_match ts []" by simp
  then show ?case by (rule exI)
next
  case (Cons c s)
  from Cons.prems have "like_match ts (c # s) \<or> like_match (AnySeq # ts) s" by simp
  then show ?case
  proof
    assume "like_match ts (c # s)"
    then have "suffix (c # s) (c # s) \<and> like_match ts (c # s)" by simp
    then show ?thesis by (rule exI)
  next
    assume "like_match (AnySeq # ts) s"
    then have "\<exists>t. suffix t s \<and> like_match ts t" by (rule Cons.IH)
    then obtain t where t: "suffix t s" "like_match ts t" by (elim exE conjE)
    from t(1) have "suffix t (c # s)" by (rule suffix_ConsI)
    with t(2) have "suffix t (c # s) \<and> like_match ts t" by simp
    then show ?thesis by (rule exI)
  qed
qed

lemma like_match_AnySeq_bwd:
  "suffix t s \<Longrightarrow> like_match ts t \<Longrightarrow> like_match (AnySeq # ts) s"
proof (induction s)
  case Nil
  then show ?case by simp
next
  case (Cons c s)
  from Cons.prems(1) have "t = c # s \<or> suffix t s" by (simp add: suffix_Cons)
  then show ?case
  proof
    assume "t = c # s"
    with Cons.prems(2) show ?thesis by simp
  next
    assume "suffix t s"
    then have "like_match (AnySeq # ts) s" using Cons.prems(2) by (rule Cons.IH)
    then show ?thesis by simp
  qed
qed

lemma like_match_AnySeq_iff:
  "like_match (AnySeq # ts) s = (\<exists>t. suffix t s \<and> like_match ts t)"
proof
  assume "like_match (AnySeq # ts) s"
  then show "\<exists>t. suffix t s \<and> like_match ts t" by (rule like_match_AnySeq_fwd)
next
  assume "\<exists>t. suffix t s \<and> like_match ts t"
  then obtain t where "suffix t s" "like_match ts t" by (elim exE conjE)
  then show "like_match (AnySeq # ts) s" by (rule like_match_AnySeq_bwd)
qed

lemma like_match_chars_prefix: "like_match (map Ch w @ [AnySeq]) s = prefix w s"
proof (induction w arbitrary: s)
  case Nil
  then show ?case using like_match_any by simp
next
  case (Cons a w)
  then show ?case by (cases s) auto
qed

lemma like_match_sublist:
  "like_match (AnySeq # map Ch w @ [AnySeq]) s = sublist w s"
  by (simp only: like_match_AnySeq_iff like_match_chars_prefix sublist_altdef')

lemma like_tokens_plain:
  "\<forall>c \<in> set w. \<not> like_special c \<Longrightarrow>
   like_tokens (w @ r) = map_option ((@) (map Ch w)) (like_tokens r)"
proof (induction w)
  case Nil
  then show ?case by (simp add: option.map_ident)
next
  case (Cons a w)
  then have "a \<noteq> CHR 0x5C" "a \<noteq> CHR ''%''" "a \<noteq> CHR ''_''" by (auto simp: like_special_def)
  with Cons show ?case by (simp add: option.map_comp comp_def)
qed

lemma like_tokens_plain_query:
  assumes "\<forall>c \<in> set q. \<not> like_special c"
  shows "like_tokens (lower (''%'' @ q @ ''%'')) = Some (AnySeq # map Ch (lower q) @ [AnySeq])"
proof -
  have l: "lower (''%'' @ q @ ''%'') = CHR ''%'' # lower q @ ''%''"
    by (simp add: lower_def lower_char_def isupper_def)
  have "\<forall>c \<in> set (lower q). \<not> like_special c"
    using assms by (auto simp: lower_def lower_char_special)
  then have "like_tokens (lower q @ ''%'') = Some (map Ch (lower q) @ [AnySeq])"
    by (simp add: like_tokens_plain)
  with l show ?thesis by simp
qed

lemma selected_plain:
  assumes "\<forall>c \<in> set q. \<not> like_special c"
  shows "selected col q p = contains_ci (col p) q"
  unfolding selected_def like_tokens_plain_query [OF assms]
  by (simp add: ilike_def contains_ci_def like_match_sublist del: like_match.simps
      split: option.splits)

lemma like_tokens_percent_end: "like_tokens (s @ ''%'') \<noteq> None"
proof (induction s rule: like_tokens.induct)
  case 1
  then show ?case by simp
next
  case (2 c p)
  then show ?case by (cases p) auto
qed

lemma like_tokens_query: "\<exists>ts. like_tokens (lower (''%'' @ q @ ''%'')) = Some ts"
proof -
  have "lower (''%'' @ q @ ''%'') = (CHR ''%'' # lower q) @ ''%''"
    by (simp add: lower_def lower_char_def isupper_def)
  then show ?thesis using like_tokens_percent_end [of "CHR ''%'' # lower q"] by auto
qed

section \<open>Ordering and serialising the selected rows\<close>

lemma mset_insert_by: "mset (insert_by le x xs) = add_mset x (mset xs)"
  by (induction xs) simp_all

lemma mset_order_by: "mset (order_by le xs) = mset xs"
  by (induction xs) (simp_all add: order_by_def mset_insert_by)

lemma set_order_by: "set (order_by le xs) = set xs"
  using mset_order_by [of le xs] by (metis set_mset_mset)

lemma set_insert_by: "set (insert_by le x xs) = insert x (set xs)"
  using mset_insert_by [of le x xs] by (metis set_mset_mset set_mset_add_mset_insert)

lemma sorted_insert_by:
  assumes tot: "\<And>a b. le a b \<or> le b a" and tr: "\<And>a b c. le a b \<Longrightarrow> le b c \<Longrightarrow> le a c"
  shows "sorted_wrt le xs \<Longrightarrow> sorted_wrt le (insert_by le x xs)"
proof (induction xs)
  case Nil
  then show ?case by simp
next
  case (Cons y ys)
  show ?case
  proof (cases "le x y")
    case True
    then have "\<forall>z \<in> set ys. le x z" using Cons.prems tr by auto
    with True Cons.prems show ?thesis by simp
  next
    case False
    then have yx: "le y x" using tot by blast
    have "sorted_wrt le (insert_by le x ys)" using Cons by simp
    moreover have "\<forall>z \<in> set (insert_by le x ys). le y z"
      using yx Cons.prems by (simp add: set_insert_by)
    ultimately show ?thesis using False by simp
  qed
qed

lemma sorted_order_by:
  assumes tot: "\<And>a b. le a b \<or> le b a" and tr: "\<And>a b c. le a b \<Longrightarrow> le b c \<Longrightarrow> le a c"
  shows "sorted_wrt le (order_by le xs)"
proof (induction xs)
  case Nil
  then show ?case by (simp add: order_by_def)
next
  case (Cons x xs)
  have "order_by le (x # xs) = insert_by le x (order_by le xs)" by (simp add: order_by_def)
  then show ?case using sorted_insert_by [OF tot tr Cons] by simp
qed

lemma date_le_total: "date_le a b \<or> date_le b a"
  by (cases a; cases b) auto

lemma date_le_trans: "date_le a b \<Longrightarrow> date_le b c \<Longrightarrow> date_le a c"
  by (cases a; cases b; cases c) auto

lemma by_event_date_total: "by_event_date p q \<or> by_event_date q p"
  using date_le_total by (auto simp: by_event_date_def nulls_last_def split: option.splits)

lemma by_event_date_trans: "by_event_date p q \<Longrightarrow> by_event_date q r \<Longrightarrow> by_event_date p r"
  using date_le_trans by (auto simp: by_event_date_def nulls_last_def split: option.splits)

lemma sorted_by_event_date: "sorted_wrt by_event_date (order_by by_event_date xs)"
  using sorted_order_by [of by_event_date xs] by_event_date_total by_event_date_trans by blast

lemma dated_ascending:
  assumes "\<forall>p \<in> set rs. event_date p \<noteq> None" "sorted_wrt by_event_date rs"
  shows "sorted_wrt date_ascending rs"
proof (rule sorted_wrt_mono_rel [OF _ assms(2)])
  fix p q
  assume "p \<in> set rs" "q \<in> set rs" "by_event_date p q"
  with assms(1) show "date_ascending p q"
    by (auto simp: by_event_date_def nulls_last_def date_ascending_def split: option.splits)
qed

lemma serialize_all_dated:
  "\<forall>p \<in> set rs. event_date p \<noteq> None \<Longrightarrow>
   \<exists>js. serialize_all rs = Inr js \<and> map Inr js = map event_json rs"
proof (induction rs)
  case Nil
  then show ?case by simp
next
  case (Cons p rs)
  then obtain js where js: "serialize_all rs = Inr js" "map Inr js = map event_json rs" by auto
  from Cons.prems obtain d where "event_date p = Some d" by auto
  then obtain j where "event_json p = Inr j" by (simp add: event_json_def)
  with js show ?case by simp
qed

lemma serialize_all_undated:
  "\<exists>p \<in> set rs. event_date p = None \<Longrightarrow> serialize_all rs = Inl AttributeError"
proof (induction rs)
  case Nil
  then show ?case by simp
next
  case (Cons p rs)
  show ?case
  proof (cases "event_date p")
    case None
    then show ?thesis by (simp add: event_json_def)
  next
    case (Some d)
    with Cons have "serialize_all rs = Inl AttributeError" by auto
    with Some show ?thesis by (simp add: event_json_def)
  qed
qed

text \<open>What a query answers once the rows are selected.\<close>

lemma ordered_rows:
  assumes "\<forall>p \<in> set db. sel p \<longrightarrow> event_date p \<noteq> None"
  shows "\<exists>rs js. serialize_all (order_by by_event_date (filter sel db)) = Inr js
           \<and> map Inr js = map event_json rs
           \<and> mset rs = filter_mset sel (mset db)
           \<and> sorted_wrt date_ascending rs"
proof -
  let ?rs = "order_by by_event_date (filter sel db)"
  have d: "\<forall>p \<in> set ?rs. event_date p \<noteq> None" using assms by (simp add: set_order_by)
  obtain js where "serialize_all ?rs = Inr js" "map Inr js = map event_json ?rs"
    using serialize_all_dated [OF d] by (elim exE conjE)
  moreover have "mset ?rs = filter_mset sel (mset db)" by (simp add: mset_order_by)
  moreover have "sorted_wrt date_ascending ?rs"
    using dated_ascending [OF d sorted_by_event_date] .
  ultimately show ?thesis by (intro exI conjI)
qed

lemma upcoming_iff: "upcoming t p = (\<exists>d. event_date p = Some d \<and> date_le t d)"
  by (simp add: upcoming_def split: option.splits)


lemmas query_eval = get_upcoming_events_def events_by_column_def get_events_by_location_def
  get_events_by_venue_def get_events_by_department_def catch_all_def order_by_def
  by_event_date_def nulls_last_def upcoming_def event_json_def text_val_def ilike_def
  example_env_def example_row_def zpad_def str_nat.simps lower_def lower_char_def isupper_def


section \<open>Pattern queries\<close>

lemma events_by_column_tokens:
  "\<exists>ts. like_tokens (lower (''%'' @ q @ ''%'')) = Some ts \<and> (\<forall>p. selected col q p = ilike (col p) ts)"
proof -
  obtain ts where "like_tokens (lower (''%'' @ q @ ''%'')) = Some ts"
    using like_tokens_query [of q] by (elim exE)
  then show ?thesis by (simp add: selected_def)
qed

lemma events_by_column_selected:
  assumes "db_fails env Query = None"
  shows "events_by_column col env q u db =
         catch_all (serialize_all (order_by by_event_date
            (filter (\<lambda>p. selected col q p \<and> (u \<longrightarrow> upcoming (today env) p)) db)))"
proof -
  obtain ts where ts: "like_tokens (lower (''%'' @ q @ ''%'')) = Some ts"
    "\<forall>p. selected col q p = ilike (col p) ts"
    using events_by_column_tokens [of q col] by (elim exE conjE)
  show ?thesis unfolding events_by_column_def ts(1) using assms ts(2) by simp
qed

lemma events_by_column_status_fail:
  "db_fails env Query = Some e \<Longrightarrow> status (events_by_column col env q u db) = 500"
  by (simp add: events_by_column_def status_def catch_all_def)

lemma events_by_column_undated:
  assumes "p \<in> set db" "event_date p = None" "selected col q p"
  shows "status (events_by_column col env q False db) = 500
       \<and> (db_fails env Query = None \<longrightarrow>
            events_by_column col env q False db = Inl (HTTPException 500 (StrOf AttributeError)))"
proof (cases "db_fails env Query")
  case (Some e)
  then show ?thesis by (simp add: events_by_column_status_fail)
next
  case None
  let ?rs = "order_by by_event_date
     (filter (\<lambda>p. selected col q p \<and> (False \<longrightarrow> upcoming (today env) p)) db)"
  have "p \<in> set ?rs" using assms by (simp add: set_order_by)
  then have "\<exists>p \<in> set ?rs. event_date p = None" using assms(2) by (rule rev_bexI)
  then have "serialize_all ?rs = Inl AttributeError" by (rule serialize_all_undated)
  then have "events_by_column col env q False db = Inl (HTTPException 500 (StrOf AttributeError))"
    unfolding events_by_column_selected [OF None] by (simp add: catch_all_def)
  then show ?thesis by (simp add: status_def)
qed

lemma filter_dated:
  assumes "\<And>p. sel p \<Longrightarrow> event_date p \<noteq> None"
  shows "filter sel (filter (\<lambda>r. event_date r \<noteq> None) db) = filter sel db"
  using assms by (induction db) auto

lemma events_by_column_upcoming_dated:
  "events_by_column col env q True (filter (\<lambda>r. event_date r \<noteq> None) db)
   = events_by_column col env q True db"
proof -
  have "\<And>ts. filter (\<lambda>p. ilike (col p) ts \<and> (True \<longrightarrow> upcoming (today env) p))
          (filter (\<lambda>r. event_date r \<noteq> None) db)
        = filter (\<lambda>p. ilike (col p) ts \<and> (True \<longrightarrow> upcoming (today env) p)) db"
    by (rule filter_dated) (auto simp: upcoming_def split: option.splits)
  then show ?thesis by (simp only: events_by_column_def)
qed

lemma upcoming_events_dated:
  "get_upcoming_events env (filter (\<lambda>r. event_date r \<noteq> None) db) = get_upcoming_events env db"
proof -
  have "filter (upcoming (today env)) (filter (\<lambda>r. event_date r \<noteq> None) db)
        = filter (upcoming (today env)) db"
    by (rule filter_dated) (auto simp: upcoming_def split: option.splits)
  then show ?thesis by (simp only: get_upcoming_events_def)
qed

lemma events_by_date_dated:
  "get_events_by_date env date (filter (\<lambda>r. event_date r \<noteq> None) db)
   = get_events_by_date env date db"
proof -
  have "\<And>d. filter (\<lambda>p. event_date p = Some d) (filter (\<lambda>r. event_date r \<noteq> None) db)
        = filter (\<lambda>p. event_date p = Some d) db"
    by (rule filter_dated) auto
  then show ?thesis by (simp only: get_events_by_date_def)
qed

lemma status_ok_dated:
  assumes "\<forall>p \<in> set rs. event_date p \<noteq> None"
  shows "status (catch_all (serialize_all rs)) = 200"
proof -
  obtain js where "serialize_all rs = Inr js" using serialize_all_dated [OF assms] by (elim exE conjE)
  then show ?thesis by (simp add: status_catch_all)
qed

lemma events_by_column_upcoming_ok:
  assumes "db_fails env Query = None"
  shows "status (events_by_column col env q True db) = 200"
  unfolding events_by_column_selected [OF assms]
  by (rule status_ok_dated) (auto simp: set_order_by upcoming_def split: option.splits)

lemma upcoming_events_ok:
  assumes "db_fails env Query = None"
  shows "status (get_upcoming_events env db) = 200"
proof -
  have "get_upcoming_events env db
        = catch_all (serialize_all (order_by by_event_date (filter (upcoming (today env)) db)))"
    using assms by (simp add: get_upcoming_events_def)
  also have "status \<dots> = 200"
    by (rule status_ok_dated) (auto simp: set_order_by upcoming_def split: option.splits)
  finally show ?thesis .
qed

lemma events_by_date_ok:
  assumes "db_fails env Query = None" "strptime date ''%Y-%m-%d'' = Inr dt"
  shows "status (get_events_by_date env date db) = 200"
proof -
  have "get_events_by_date env date db
        = catch_all (serialize_all (order_by by_event_time
            (filter (\<lambda>p. event_date p = Some (fst dt)) db)))"
    using assms by (simp add: get_events_by_date_def)
  also have "status \<dots> = 200"
    by (rule status_ok_dated) (auto simp: set_order_by)
  finally show ?thesis .
qed

lemma events_by_column_exact:
  assumes "db_fails env Query = None" "\<forall>c \<in> set q. \<not> like_special c"
    "u \<or> (\<forall>p \<in> set db. contains_ci (col p) q \<longrightarrow> event_date p \<noteq> None)"
  shows "\<exists>rs js. events_by_column col env q u db = Inr js \<and> map Inr js = map event_json rs
     \<and> mset rs = filter_mset (\<lambda>p. contains_ci (col p) q \<and>
            (u \<longrightarrow> (\<exists>d. event_date p = Some d \<and> date_le (today env) d))) (mset db)
     \<and> sorted_wrt date_ascending rs"
proof -
  let ?sel = "\<lambda>p. contains_ci (col p) q \<and>
                (u \<longrightarrow> (\<exists>d. event_date p = Some d \<and> date_le (today env) d))"
  have d: "\<forall>p \<in> set db. ?sel p \<longrightarrow> event_date p \<noteq> None" using assms(3) by auto
  from ordered_rows [of db ?sel, OF d]
  obtain rs js where r: "serialize_all (order_by by_event_date (filter ?sel db)) = Inr js"
    "map Inr js = map event_json rs" "mset rs = filter_mset ?sel (mset db)"
    "sorted_wrt date_ascending rs" by (elim exE conjE)
  have "(\<lambda>p. selected col q p \<and> (u \<longrightarrow> upcoming (today env) p)) = ?sel"
    by (rule ext) (simp add: selected_plain [OF assms(2)] upcoming_iff)
  then have "events_by_column col env q u db = Inr js"
    using r(1) by (simp only: events_by_column_selected [OF assms(1)] catch_all_def sum.case)
  with r(2,3,4) show ?thesis by (intro exI conjI)
qed

text \<open>
  C8, as amended. When the store answers and the query has none of the
  characters \<open>%\<close>, \<open>_\<close> and backslash, each of the endpoints by location,
  venue and department returns the dictionaries of exactly the stored rows
  whose column contains the query, compared in lower case, anywhere in the
  value (and, with \<open>upcoming_only\<close>, whose date is not before today), in
  ascending order of the date, provided that \<open>upcoming_only\<close> is set or every
  row containing the query has a date.
\<close>

theorem pattern_query_exact:
  assumes "db_fails env Query = None" "\<forall>c \<in> set q. \<not> like_special c"
  shows
   "((u \<or> (\<forall>p \<in> set db. contains_ci (location p) q \<longrightarrow> event_date p \<noteq> None)) \<longrightarrow>
      (\<exists>rs js. get_events_by_location env q u db = Inr js \<and> map Inr js = map event_json rs
        \<and> mset rs = filter_mset (\<lambda>p. contains_ci (location p) q \<and>
               (u \<longrightarrow> (\<exists>d. event_date p = Some d \<and> date_le (today env) d))) (mset db)
        \<and> sorted_wrt date_ascending rs))
  \<and> ((u \<or> (\<forall>p \<in> set db. contains_ci (venue p) q \<longrightarrow> event_date p \<noteq> None)) \<longrightarrow>
      (\<exists>rs js. get_events_by_venue env q u db = Inr js \<and> map Inr js = map event_json rs
        \<and> mset rs = filter_mset (\<lambda>p. contains_ci (venue p) q \<and>
               (u \<longrightarrow> (\<exists>d. event_date p = Some d \<and> date_le (today env) d))) (mset db)
        \<and> sorted_wrt date_ascending rs))
  \<and> ((u \<or> (\<forall>p \<in> set db. contains_ci (hosted_department p) q \<longrightarrow> event_date p \<noteq> None)) \<longrightarrow>
      (\<exists>rs js. get_events_by_department env q u db = Inr js \<and> map Inr js = map event_json rs
        \<and> mset rs = filter_mset (\<lambda>p. contains_ci (hosted_department p) q \<and>
               (u \<longrightarrow> (\<exists>d. event_date p = Some d \<and> date_le (today env) d))) (mset db)
        \<and> sorted_wrt date_ascending rs))"
  unfolding get_events_by_location_def get_events_by_venue_def get_events_by_department_def
  using events_by_column_exact [OF assms, of u db location]
    events_by_column_exact [OF assms, of u db venue]
    events_by_column_exact [OF assms, of u db hosted_department]
  by (intro conjI impI)

lemma plain_hall: "\<forall>c \<in> set ''hall''. \<not> like_special c"
  by (simp add: like_special_def)

lemma contains_city_hall: "contains_ci (Some ''City Hall'') ''hall''"
  "contains_ci (Some ''hallway'') ''hall''" "\<not> contains_ci (Some ''Stadium'') ''hall''"
  "\<not> contains_ci (Some ''City Hall'') ''h_ll''"
  by (simp_all add: contains_ci_def lower_def lower_char_def isupper_def sublist_code)

lemma tokens_hall: "like_tokens (lower ''%hall%'') = Some [AnySeq, Ch CHR ''h'', Ch CHR ''a'', Ch CHR ''l'', Ch CHR ''l'', AnySeq]"
  "like_tokens (lower ''%h_ll%'') = Some [AnySeq, Ch CHR ''h'', AnyOne, Ch CHR ''l'', Ch CHR ''l'', AnySeq]"
  by (simp_all add: lower_def lower_char_def isupper_def)

theorem pattern_query_exact_witness:
  "db_fails (example_env []) Query = None \<and> list_all (\<lambda>c. \<not> like_special c) ''hall''
   \<and> (\<exists>rs js. get_events_by_location (example_env []) ''hall'' False
          [example_row 1 ''City Hall'' (Some (Date 2024 1 20)),
           example_row 2 ''hallway'' (Some (Date 2024 1 2)),
           example_row 3 ''Stadium'' (Some (Date 2024 1 2))] = Inr js
        \<and> map Inr js = map event_json rs \<and> sorted_wrt date_ascending rs)
   \<and> get_events_by_location (example_env []) ''hall'' False
          [example_row 1 ''City Hall'' (Some (Date 2024 1 20)),
           example_row 2 ''hallway'' (Some (Date 2024 1 2)),
           example_row 3 ''Stadium'' (Some (Date 2024 1 2))]
       = Inr [[(''id'', PInt 2), (''title'', PStr ''Expo''), (''name'', PNone),
               (''location'', PStr ''hallway''), (''socials'', PNone),
               (''event_date'', PStr ''2024-01-02''), (''event_time'', PNone),
               (''venue'', PStr ''hallway''), (''hosted_department'', PStr ''hallway'')],
              [(''id'', PInt 1), (''title'', PStr ''Expo''), (''name'', PNone),
               (''location'', PStr ''City Hall''), (''socials'', PNone),
               (''event_date'', PStr ''2024-01-20''), (''event_time'', PNone),
               (''venue'', PStr ''City Hall''), (''hosted_department'', PStr ''City Hall'')]]"
proof -
  let ?db = "[example_row 1 ''City Hall'' (Some (Date 2024 1 20)),
              example_row 2 ''hallway'' (Some (Date 2024 1 2)),
              example_row 3 ''Stadium'' (Some (Date 2024 1 2))]"
  have h: "db_fails (example_env []) Query = None" by (simp add: example_env_def)
  have d: "False \<or> (\<forall>p \<in> set ?db. contains_ci (location p) ''hall'' \<longrightarrow> event_date p \<noteq> None)"
    by (simp add: example_row_def)
  from pattern_query_exact [OF h plain_hall, of False ?db, THEN conjunct1, THEN mp, OF d]
  obtain rs js where r: "get_events_by_location (example_env []) ''hall'' False ?db = Inr js"
    "map Inr js = map event_json rs" "sorted_wrt date_ascending rs"
    by (elim conjE exE)
  then have 1: "\<exists>rs js. get_events_by_location (example_env []) ''hall'' False ?db = Inr js
        \<and> map Inr js = map event_json rs \<and> sorted_wrt date_ascending rs"
    by (intro exI conjI)
  have 2: "get_events_by_location (example_env []) ''hall'' False ?db
       = Inr [[(''id'', PInt 2), (''title'', PStr ''Expo''), (''name'', PNone),
               (''location'', PStr ''hallway''), (''socials'', PNone),
               (''event_date'', PStr ''2024-01-02''), (''event_time'', PNone),
               (''venue'', PStr ''hallway''), (''hosted_department'', PStr ''hallway'')],
              [(''id'', PInt 1), (''title'', PStr ''Expo''), (''name'', PNone),
               (''location'', PStr ''City Hall''), (''socials'', PNone),
               (''event_date'', PStr ''2024-01-20''), (''event_time'', PNone),
               (''venue'', PStr ''City Hall''), (''hosted_department'', PStr ''City Hall'')]]"
    using tokens_hall(1) by (simp add: query_eval)
  have p: "list_all (\<lambda>c. \<not> like_special c) ''hall''" by (simp add: like_special_def)
  from h p 1 2 show ?thesis by (intro conjI)
qed

text \<open>
  C8 as stated fails twice over. The query \<open>h_ll\<close> returns the row at
  \<open>City Hall\<close>, whose location does not contain \<open>h_ll\<close>: \<open>_\<close> is a wildcard
  of \<open>ILIKE\<close> and the endpoint passes the query on unescaped. And the query
  \<open>hall\<close> on a store whose only row is at \<open>City Hall\<close> with no date returns
  no row but an error.
\<close>

theorem pattern_query_counterexample:
  "\<not> contains_ci (location (example_row 1 ''City Hall'' (Some (Date 2024 1 20)))) ''h_ll''
   \<and> get_events_by_location (example_env []) ''h_ll'' False
        [example_row 1 ''City Hall'' (Some (Date 2024 1 20))]
      = Inr [[(''id'', PInt 1), (''title'', PStr ''Expo''), (''name'', PNone),
              (''location'', PStr ''City Hall''), (''socials'', PNone),
              (''event_date'', PStr ''2024-01-20''), (''event_time'', PNone),
              (''venue'', PStr ''City Hall''), (''hosted_department'', PStr ''City Hall'')]]
   \<and> contains_ci (location (example_row 2 ''City Hall'' None)) ''hall''
   \<and> get_events_by_location (example_env []) ''hall'' False [example_row 2 ''City Hall'' None]
      = Inl (HTTPException 500 (StrOf AttributeError))"
proof -
  have 1: "\<not> contains_ci (location (example_row 1 ''City Hall'' (Some (Date 2024 1 20)))) ''h_ll''"
    using contains_city_hall(4) by (simp add: example_row_def)
  have 2: "get_events_by_location (example_env []) ''h_ll'' False
        [example_row 1 ''City Hall'' (Some (Date 2024 1 20))]
      = Inr [[(''id'', PInt 1), (''title'', PStr ''Expo''), (''name'', PNone),
              (''location'', PStr ''City Hall''), (''socials'', PNone),
              (''event_date'', PStr ''2024-01-20''), (''event_time'', PNone),
              (''venue'', PStr ''City Hall''), (''hosted_department'', PStr ''City Hall'')]]"
    using tokens_hall(2) by (simp add: query_eval)
  have 3: "contains_ci (location (example_row 2 ''City Hall'' None)) ''hall''"
    using contains_city_hall(1) by (simp add: example_row_def)
  have 4: "get_events_by_location (example_env []) ''hall'' False [example_row 2 ''City Hall'' None]
      = Inl (HTTPException 500 (StrOf AttributeError))"
    using tokens_hall(1) by (simp add: query_eval)
  from 1 2 3 4 show ?thesis by (intro conjI)
qed

text \<open>
  C10. If a stored row has no date and is selected by the pattern of a query
  by location, venue or department without \<open>upcoming_only\<close>, the request is
  answered 500, and when the store itself answered the cause is the
  \<open>AttributeError\<close> of \<open>None.isoformat()\<close>. With \<open>upcoming_only\<close>, and for
  \<open>/events/upcoming\<close> and \<open>/events/by-date\<close>, rows without a date make no
  difference: the answer is that on the store without them, and it is a
  result (status 200) whenever the store answers and the date parses.
\<close>

theorem absent_date_fails_pattern_query:
  assumes "p \<in> set db" "event_date p = None"
  shows
   "(selected location q p \<longrightarrow>
       status (get_events_by_location env q False db) = 500
       \<and> (db_fails env Query = None \<longrightarrow>
            get_events_by_location env q False db = Inl (HTTPException 500 (StrOf AttributeError))))
  \<and> (selected venue q p \<longrightarrow>
       status (get_events_by_venue env q False db) = 500
       \<and> (db_fails env Query = None \<longrightarrow>
            get_events_by_venue env q False db = Inl (HTTPException 500 (StrOf AttributeError))))
  \<and> (selected hosted_department q p \<longrightarrow>
       status (get_events_by_department env q False db) = 500
       \<and> (db_fails env Query = None \<longrightarrow>
            get_events_by_department env q False db
            = Inl (HTTPException 500 (StrOf AttributeError))))
  \<and> get_events_by_location env q True db
      = get_events_by_location env q True (filter (\<lambda>r. event_date r \<noteq> None) db)
  \<and> get_events_by_venue env q True db
      = get_events_by_venue env q True (filter (\<lambda>r. event_date r \<noteq> None) db)
  \<and> get_events_by_department env q True db
      = get_events_by_department env q True (filter (\<lambda>r. event_date r \<noteq> None) db)
  \<and> get_upcoming_events env db = get_upcoming_events env (filter (\<lambda>r. event_date r \<noteq> None) db)
  \<and> get_events_by_date env date db
      = get_events_by_date env date (filter (\<lambda>r. event_date r \<noteq> None) db)
  \<and> (db_fails env Query = None \<longrightarrow>
        status (get_events_by_location env q True db) = 200
      \<and> status (get_events_by_venue env q True db) = 200
      \<and> status (get_events_by_department env q True db) = 200
      \<and> status (get_upcoming_events env db) = 200
      \<and> (\<forall>dt. strptime date ''%Y-%m-%d'' = Inr dt \<longrightarrow>
            status (get_events_by_date env date db) = 200))"
proof -
  have 1: "\<And>col. selected col q p \<longrightarrow>
       status (events_by_column col env q False db) = 500
       \<and> (db_fails env Query = None \<longrightarrow>
            events_by_column col env q False db = Inl (HTTPException 500 (StrOf AttributeError)))"
    using events_by_column_undated [OF assms] by (intro impI)
  have 2: "\<And>col. events_by_column col env q True db
      = events_by_column col env q True (filter (\<lambda>r. event_date r \<noteq> None) db)"
    by (rule events_by_column_upcoming_dated [symmetric])
  have 3: "get_upcoming_events env db
      = get_upcoming_events env (filter (\<lambda>r. event_date r \<noteq> None) db)"
    by (rule upcoming_events_dated [symmetric])
  have 4: "get_events_by_date env date db
      = get_events_by_date env date (filter (\<lambda>r. event_date r \<noteq> None) db)"
    by (rule events_by_date_dated [symmetric])
  have 5: "db_fails env Query = None \<longrightarrow>
        status (events_by_column location env q True db) = 200
      \<and> status (events_by_column venue env q True db) = 200
      \<and> status (events_by_column hosted_department env q True db) = 200
      \<and> status (get_upcoming_events env db) = 200
      \<and> (\<forall>dt. strptime date ''%Y-%m-%d'' = Inr dt \<longrightarrow>
            status (get_events_by_date env date db) = 200)"
    using events_by_column_upcoming_ok upcoming_events_ok events_by_date_ok
    by (intro impI conjI allI) assumption+
  show ?thesis
    unfolding get_events_by_location_def get_events_by_venue_def get_events_by_department_def
    using 1 [of location] 1 [of venue] 1 [of hosted_department]
      2 [of location] 2 [of venue] 2 [of hosted_department] 3 4 5
    by (intro conjI)
qed

lemma selected_hall: "selected location ''hall'' (example_row 1 ''City Hall'' None)"
  using tokens_hall(1) by (simp add: selected_def ilike_def example_row_def lower_def
      lower_char_def isupper_def)

theorem absent_date_fails_pattern_query_witness:
  "example_row 1 ''City Hall'' None \<in> set [example_row 1 ''City Hall'' None]
   \<and> event_date (example_row 1 ''City Hall'' None) = None
   \<and> selected location ''hall'' (example_row 1 ''City Hall'' None)
   \<and> get_events_by_location (example_env []) ''hall'' False [example_row 1 ''City Hall'' None]
       = Inl (HTTPException 500 (StrOf AttributeError))
   \<and> get_events_by_location (example_env []) ''hall'' True [example_row 1 ''City Hall'' None]
       = Inr []
   \<and> get_upcoming_events (example_env []) [example_row 1 ''City Hall'' None] = Inr []
   \<and> get_events_by_date (example_env []) ''2024-01-13'' [example_row 1 ''City Hall'' None] = Inr []"
proof -
  let ?p = "example_row 1 ''City Hall'' None"
  have a: "?p \<in> set [?p]" by simp
  have b: "event_date ?p = None" by (simp add: example_row_def)
  have h: "db_fails (example_env []) Query = None" by (simp add: example_env_def)
  note inst = absent_date_fails_pattern_query [OF a b, of "''hall''" "example_env []" "''2024-01-13''"]
  from inst selected_hall h
  have 1: "get_events_by_location (example_env []) ''hall'' False [?p]
       = Inl (HTTPException 500 (StrOf AttributeError))" by simp
  from inst b
  have 2: "get_events_by_location (example_env []) ''hall'' True [?p]
       = get_events_by_location (example_env []) ''hall'' True []"
    and 3: "get_upcoming_events (example_env []) [?p] = get_upcoming_events (example_env []) []"
    and 4: "get_events_by_date (example_env []) ''2024-01-13'' [?p]
       = get_events_by_date (example_env []) ''2024-01-13'' []"
    by simp_all
  have 5: "get_events_by_location (example_env []) ''hall'' True [] = Inr []"
    using tokens_hall(1) by (simp add: query_eval)
  have 6: "get_upcoming_events (example_env []) [] = Inr []" by (simp add: query_eval)
  have 7: "get_events_by_date (example_env []) ''2024-01-13'' [] = Inr []"
    by (simp add: get_events_by_date_def good_date query_eval)
  from a b selected_hall 1 2 3 4 5 6 7 show ?thesis by simp
qed

section \<open>When the time cannot be parsed\<close>

lemma ms_hour_no_digit:
  assumes "no_digit_head s" "d = CHR ''I'' \<or> d = CHR ''H''" "directive d = Some r"
  shows "ms r s g = []"
proof (cases s)
  case Nil
  with assms(2,3) show ?thesis by (auto simp: directive_def digit_range_def)
next
  case (Cons c t)
  with assms(1) have "\<not> isdigit c" by (simp add: no_digit_head_def)
  then have "\<not> (48 \<le> (of_char c :: nat) \<and> (of_char c :: nat) \<le> 57)"
    by (simp add: isdigit_def Let_def)
  moreover have "c \<noteq> CHR ''0''" "c \<noteq> CHR ''1''" "c \<noteq> CHR ''2''"
    using \<open>\<not> isdigit c\<close> by (auto simp: isdigit_def)
  ultimately show ?thesis using assms(2,3) Cons
    by (auto simp: directive_def digit_range_def isdigit_def)
qed

lemma strptime_no_digit:
  assumes "no_digit_head s" "d = CHR ''I'' \<or> d = CHR ''H''"
  shows "\<exists>e. strptime s (CHR ''%'' # d # rest) = Inl e"
proof -
  obtain r where r: "directive d = Some r" using assms(2) by (auto simp: directive_def)
  have m: "\<And>g. ms r s g = []" using ms_hour_no_digit [OF assms r] .
  show ?thesis
  proof (cases "pattern rest")
    case None
    with r show ?thesis by (simp add: strptime_def)
  next
    case (Some r')
    with r have "pattern (CHR ''%'' # d # rest) = Some (Seq r r')" by simp
    moreover have "re_match (Seq r r') s = None" by (simp add: re_match_def m)
    ultimately show ?thesis by (simp add: strptime_def)
  qed
qed

lemma try_formats_no_digit:
  assumes "no_digit_head s"
  shows "try_formats s time_formats = None"
proof -
  have "\<And>d rest fmts. d = CHR ''I'' \<or> d = CHR ''H'' \<Longrightarrow> try_formats s fmts = None \<Longrightarrow>
          try_formats s ((CHR ''%'' # d # rest) # fmts) = None"
  proof -
    fix d rest fmts
    assume d: "d = CHR ''I'' \<or> d = CHR ''H''" and t: "try_formats s fmts = None"
    obtain e where "strptime s (CHR ''%'' # d # rest) = Inl e"
      using strptime_no_digit [OF assms d, of rest] by (elim exE)
    with t show "try_formats s ((CHR ''%'' # d # rest) # fmts) = None" by simp
  qed
  then show ?thesis by (simp add: time_formats_def)
qed

lemma re_match_time_no_digit:
  "no_digit_head s \<Longrightarrow> re_match time_pattern s = None"
  by (cases s) (simp_all add: re_match_def time_pattern_def no_digit_head_def)

lemma re_search_time_no_digit:
  "\<not> list_ex isdigit s \<Longrightarrow> re_search time_pattern s = None"
proof (induction s)
  case Nil
  then show ?case by (simp add: re_match_time_no_digit no_digit_head_def)
next
  case (Cons c s)
  then have "no_digit_head (c # s)" by (simp add: no_digit_head_def)
  then have "re_match time_pattern (c # s) = None" by (rule re_match_time_no_digit)
  with Cons show ?case by simp
qed

lemma no_digit_head_if: "\<not> list_ex isdigit s \<Longrightarrow> no_digit_head s"
  by (cases s) (simp_all add: no_digit_head_def)

lemma no_digit_unparseable:
  assumes "\<not> list_ex isdigit (clean_time_string raw)"
  shows "parse_event_time raw = Inl (ValueError (CouldNotParse raw))"
  using try_formats_no_digit [OF no_digit_head_if [OF assms]] re_search_time_no_digit [OF assms]
  by (simp add: parse_event_time_def regex_fallback_def)

text \<open>With a digit in the string the pattern of the fallback matches.\<close>

lemma ms_Seq_nonempty:
  assumes "ms a s g \<noteq> []" "\<And>t h. ms b t h \<noteq> []"
  shows "ms (Seq a b) s g \<noteq> []"
proof -
  obtain t h rest where "ms a s g = (t, h) # rest" using assms(1) by (cases "ms a s g") auto
  then have "ms (Seq a b) s g = ms b t h @ concat (map (\<lambda>(t, h). ms b t h) rest)" by simp
  with assms(2) [of t h] show ?thesis by simp
qed

lemma ms_Opt_nonempty: "ms (Opt a) s g \<noteq> []"
  by simp

lemma ms_Star_nonempty: "ms (Star k) s g \<noteq> []"
  by simp

lemma re_match_time_digit:
  assumes "isdigit c"
  shows "re_match time_pattern (c # s) \<noteq> None"
proof -
  have 1: "ms (Grp ''1'' (Seq (C Digit) (Opt (C Digit)))) (c # s) [] \<noteq> []"
    using assms by simp
  have "ms time_pattern (c # s) [] \<noteq> []"
    unfolding time_pattern_def
    by (intro ms_Seq_nonempty 1 ms_Opt_nonempty ms_Star_nonempty)
  then show ?thesis by (simp add: re_match_def split: list.splits)
qed

lemma re_search_time_digit:
  "list_ex isdigit s \<Longrightarrow> re_search time_pattern s \<noteq> None"
proof (induction s)
  case Nil
  then show ?case by simp
next
  case (Cons c s)
  show ?case
  proof (cases "isdigit c")
    case True
    then show ?thesis using re_match_time_digit [OF True, of s] by auto
  next
    case False
    with Cons show ?thesis by (auto split: option.splits)
  qed
qed

text \<open>Cleaning neither adds nor removes a digit.\<close>

lemma isdigit_bits: "isdigit (Char b0 b1 b2 b3 b4 b5 b6 b7) \<Longrightarrow> \<not> b6 \<and> \<not> b7"
  by (cases b6; cases b7; simp add: isdigit_def)

lemma isdigit_lower_char: "isdigit (lower_char c) = isdigit c"
proof (cases c)
  case (Char b0 b1 b2 b3 b4 b5 b6 b7)
  show ?thesis
  proof (cases "isupper c")
    case True
    with Char have b: "b6 \<and> \<not> b5" using isupper_bits by blast
    then have "\<not> isdigit c" using Char isdigit_bits by blast
    moreover have "\<not> isdigit (Char b0 b1 b2 b3 b4 True b6 b7)"
      using b isdigit_bits [of b0 b1 b2 b3 b4 True b6 b7] by auto
    then have "\<not> isdigit (lower_char c)" using True Char by (simp add: lower_char_def)
    ultimately show ?thesis by simp
  next
    case False
    then show ?thesis by (simp add: lower_char_def)
  qed
qed

lemma filter_digit_lower: "filter isdigit (lower s) = map lower_char (filter isdigit s)"
  by (induction s) (simp_all add: lower_def isdigit_lower_char)

lemma filter_digit_replace_from:
  "\<not> list_ex isdigit old \<Longrightarrow> \<not> list_ex isdigit new \<Longrightarrow>
   filter isdigit (replace_from old new s) = filter isdigit s"
proof (induction old new s rule: replace_from.induct)
  case (1 old new)
  then show ?case by simp
next
  case (2 old new c s)
  have fo: "filter isdigit old = []" and fn: "filter isdigit new = []"
    using 2(3,4) by (simp_all add: list_ex_iff filter_empty_conv)
  show ?case
  proof (cases "old \<noteq> [] \<and> take (length old) (c # s) = old")
    case True
    then have o: "old \<noteq> []" "take (length old) (c # s) = old" by simp_all
    have "c # s = take (length old) (c # s) @ drop (length old) (c # s)" by simp
    also have "drop (length old) (c # s) = drop (length old - 1) s" using o(1) by (cases old) auto
    finally have cs: "c # s = old @ drop (length old - 1) s" using o(2) by simp
    have "filter isdigit (replace_from old new (c # s))
        = filter isdigit (new @ replace_from old new (drop (length old - 1) s))"
      using replace_from_hit [OF o] by simp
    also have "\<dots> = filter isdigit (drop (length old - 1) s)"
      using 2(1) [OF True 2(3,4)] fn by simp
    also have "\<dots> = filter isdigit (old @ drop (length old - 1) s)" using fo by simp
    finally show ?thesis using cs by simp
  next
    case False
    have "filter isdigit (replace_from old new (c # s))
        = filter isdigit (c # replace_from old new s)"
      using replace_from_miss [OF False] by simp
    then show ?thesis using 2(2) [OF False 2(3,4)] by simp
  qed
qed

lemma filter_digit_replace:
  "old \<noteq> [] \<Longrightarrow> \<not> list_ex isdigit old \<Longrightarrow> \<not> list_ex isdigit new \<Longrightarrow>
   filter isdigit (replace s old new) = filter isdigit s"
  by (simp add: replace_def filter_digit_replace_from)

lemma space_not_digit: "isspace c \<Longrightarrow> \<not> isdigit c"
  by (auto simp: isspace_def isdigit_def Let_def)

lemma filter_digit_spaces: "list_all isspace a \<Longrightarrow> filter isdigit a = []"
  by (induction a) (simp_all add: space_not_digit)

lemma filter_digit_strip: "filter isdigit (strip s) = filter isdigit s"
proof -
  obtain a b where ab: "list_all isspace a" "list_all isspace b" "s = a @ strip s @ b"
    using strip_decomp by blast
  have "filter isdigit (a @ strip s @ b) = filter isdigit (strip s)"
    using ab(1,2) by (simp add: filter_digit_spaces)
  with ab(3) show ?thesis by simp
qed

lemma words_no_digit:
  "\<not> list_ex isdigit ''onwards''" "\<not> list_ex isdigit ''onward''" "\<not> list_ex isdigit ''starting''"
  "\<not> list_ex isdigit ''from''" "\<not> list_ex isdigit ''at''" "\<not> list_ex isdigit ''pm''"
  "\<not> list_ex isdigit ''am''" "\<not> list_ex isdigit '' PM''" "\<not> list_ex isdigit '' AM''"
  "\<not> list_ex isdigit []"
  by (simp_all add: isdigit_def)

lemma filter_digit_clean:
  "filter isdigit (clean_time_string raw) = map lower_char (filter isdigit raw)"
  by (simp add: clean_time_string_spec spec_clean_def filter_digit_strip filter_digit_replace
      isdigit_def filter_digit_lower)

lemma digit_clean: "list_ex isdigit (clean_time_string raw) = list_ex isdigit raw"
proof -
  have "\<And>s. list_ex isdigit s = (filter isdigit s \<noteq> [])"
    by (simp add: list_ex_iff filter_empty_conv)
  then show ?thesis by (simp add: filter_digit_clean)
qed

text \<open>
  C4, as amended. The normaliser fails with the error that carries the
  original input on a string that no format matches and the pattern of the
  fallback does not match either. Every input without a decimal digit is
  such a string, so \<open>half past five\<close> fails that way.
\<close>

theorem no_digit_unparseable_time:
  "(try_formats (clean_time_string raw) time_formats = None \<and>
    re_search time_pattern (clean_time_string raw) = None \<longrightarrow>
      parse_event_time raw = Inl (ValueError (CouldNotParse raw)))
   \<and> (\<not> list_ex isdigit raw \<longrightarrow>
        try_formats (clean_time_string raw) time_formats = None
      \<and> re_search time_pattern (clean_time_string raw) = None
      \<and> parse_event_time raw = Inl (ValueError (CouldNotParse raw)))"
proof -
  have 1: "try_formats (clean_time_string raw) time_formats = None \<and>
      re_search time_pattern (clean_time_string raw) = None \<longrightarrow>
      parse_event_time raw = Inl (ValueError (CouldNotParse raw))"
    by (simp add: parse_event_time_def regex_fallback_def)
  have 2: "\<not> list_ex isdigit raw \<longrightarrow>
        try_formats (clean_time_string raw) time_formats = None
      \<and> re_search time_pattern (clean_time_string raw) = None
      \<and> parse_event_time raw = Inl (ValueError (CouldNotParse raw))"
  proof
    assume "\<not> list_ex isdigit raw"
    then have n: "\<not> list_ex isdigit (clean_time_string raw)" by (simp add: digit_clean)
    from try_formats_no_digit [OF no_digit_head_if [OF n]] re_search_time_no_digit [OF n]
      no_digit_unparseable [OF n]
    show "try_formats (clean_time_string raw) time_formats = None
      \<and> re_search time_pattern (clean_time_string raw) = None
      \<and> parse_event_time raw = Inl (ValueError (CouldNotParse raw))"
      by (intro conjI)
  qed
  from 1 2 show ?thesis by (rule conjI)
qed

theorem no_digit_unparseable_time_witness:
  "\<not> list_ex isdigit ''half past five''
   \<and> try_formats (clean_time_string ''half past five'') time_formats = None
   \<and> re_search time_pattern (clean_time_string ''half past five'') = None
   \<and> parse_event_time ''half past five'' = Inl (ValueError (CouldNotParse ''half past five''))"
proof -
  have n: "\<not> list_ex isdigit ''half past five''" by (simp add: isdigit_def)
  from no_digit_unparseable_time [of "''half past five''", THEN conjunct2, THEN mp, OF n] n
  show ?thesis by (intro conjI) simp_all
qed

lemma clean_half_past_5: "clean_time_string ''half past 5'' = ''half past 5''"
  by (simp add: clean_eval)

text \<open>
  C4 as stated fails at its own example: in \<open>half past 5\<close> the fallback
  searches the string, finds the hour 5 with no minute and no marker, and
  the result is 05:00:00.
\<close>

theorem half_past_5_counterexample:
  "parse_event_time ''half past 5'' = Inr (Time 5 0 0)"
proof -
  have "try_formats ''half past 5'' time_formats = None"
    by (rule try_formats_no_digit) (simp add: no_digit_head_def isdigit_def)
  moreover have "regex_fallback ''half past 5'' ''half past 5'' = Inr (Time 5 0 0)"
  proof -
    have 1: "re_search time_pattern ''half past 5'' = Some (1, [(''1'', ''5'')])"
      by (simp add: time_pattern_def lit_def re_match_def isdigit_def isspace_def)
    have 2: "int_of_str ''5'' = 5"
      by (simp add: int_of_str_def strip_def isspace_def digit_val_def)
    have 3: "pad2 5 = ''05''" "pad2 0 = ''00''"
      by (simp_all add: pad2_def zpad_def str_nat.simps)
    have 4: "strptime ''05:00'' ''%H:%M'' = Inr (Date 1900 1 1, Time 5 0 0)"
      by (simp add: strptime_eval)
    show ?thesis unfolding regex_fallback_def 1 by (simp add: group_def 2 3 4)
  qed
  ultimately show ?thesis by (simp add: parse_event_time_def clean_half_past_5)
qed


end
